theory Spec2Isabelle
  imports Complex_Main "HOL-Library.Multiset"
begin

section \<open>Paths, file names and the year of an image\<close>

text \<open>
  A path is kept symbolically, as the list of the segments that pathlib joined with
  \<open>/\<close>: \<open>Path('output') / batch_id\<close> is \<open>[''output'', batch_id]\<close>. What the operating
  system makes of the segments is outside the program. File names are ASCII strings.
\<close>

type_synonym path = "string list"

definition path_join :: "path \<Rightarrow> string \<Rightarrow> path" where
  "path_join p s = p @ [s]"

text \<open>\<open>Path.name\<close>: the final segment.\<close>

definition path_name :: "path \<Rightarrow> string" where
  "path_name p = (case rev p of [] \<Rightarrow> [] | s # _ \<Rightarrow> s)"

text \<open>
  \<open>Path.stem\<close>: the name without its last suffix. The suffix starts at the last dot of
  the name, unless that dot is the first or the last character of the name (then there
  is no suffix).
\<close>

definition rfind_dot :: "string \<Rightarrow> nat option" where
  "rfind_dot s =
     (if CHR ''.'' \<in> set s
      then Some (length s - Suc (length (takeWhile (\<lambda>c. c \<noteq> CHR ''.'') (rev s))))
      else None)"

definition path_stem :: "path \<Rightarrow> string" where
  "path_stem p =
     (let name = path_name p in
      case rfind_dot name of
        None \<Rightarrow> name
      | Some i \<Rightarrow> if 0 < i \<and> i < length name - 1 then take i name else name)"

text \<open>\<open>str.split(sep)\<close> with a one-character separator: never the empty list.\<close>

fun str_split :: "char \<Rightarrow> string \<Rightarrow> string list" where
  "str_split sep [] = [[]]"
| "str_split sep (c # cs) =
     (if c = sep then [] # str_split sep cs
      else (case str_split sep cs of
              [] \<Rightarrow> [[c]]
            | part # parts \<Rightarrow> (c # part) # parts))"

text \<open>
  \<open>int(s)\<close> on a string, base 10: surrounding whitespace is stripped (on an ASCII string
  the characters 9 to 13 and the space, 32; the separators 28 to 31 are not), one sign is
  allowed, and what remains must be a non-empty run of decimal digits (leading zeros
  are accepted). Anything else raises ValueError, here \<open>None\<close>. Python also accepts
  single underscores between digits; a field cut out by \<open>split('_')\<close> holds none, so
  that case is left out.
\<close>

definition is_space :: "char \<Rightarrow> bool" where
  "is_space c = (let n = of_char c :: nat in (9 \<le> n \<and> n \<le> 13) \<or> n = 32)"

definition is_digit :: "char \<Rightarrow> bool" where
  "is_digit c = (let n = of_char c :: nat in 48 \<le> n \<and> n \<le> 57)"

definition digit_val :: "char \<Rightarrow> int" where
  "digit_val c = int (of_char c) - 48"

definition str_strip :: "string \<Rightarrow> string" where
  "str_strip s = rev (dropWhile is_space (rev (dropWhile is_space s)))"

definition digits_val :: "string \<Rightarrow> int option" where
  "digits_val ds =
     (if ds \<noteq> [] \<and> list_all is_digit ds
      then Some (foldl (\<lambda>acc d. 10 * acc + digit_val d) 0 ds)
      else None)"

definition py_int :: "string \<Rightarrow> int option" where
  "py_int s =
     (case str_strip s of
        [] \<Rightarrow> None
      | c # cs \<Rightarrow>
          if c = CHR ''-'' then map_option uminus (digits_val cs)
          else if c = CHR ''+'' then digits_val cs
          else digits_val (c # cs))"

text \<open>
  \<open>extract_year\<close>, the local function of \<open>create_timelapse_video\<close>: the stem is split at
  underscores and the last part is read as an integer. \<open>parts[-1]\<close> of an empty list
  would raise IndexError and \<open>int\<close> raises ValueError: \<open>parsed_year\<close> is the body of
  the \<open>try\<close>, with \<open>None\<close> for either exception, and \<open>extract_year\<close> adds the handler,
  which returns 0.
\<close>

definition last_part :: "string list \<Rightarrow> string option" where
  "last_part parts = (case rev parts of [] \<Rightarrow> None | x # _ \<Rightarrow> Some x)"

definition year_field :: "path \<Rightarrow> string option" where
  "year_field filepath = last_part (str_split (CHR ''_'') (path_stem filepath))"

definition parsed_year :: "path \<Rightarrow> int option" where
  "parsed_year filepath =
     (case year_field filepath of None \<Rightarrow> None | Some field \<Rightarrow> py_int field)"

definition extract_year :: "path \<Rightarrow> int" where
  "extract_year filepath = (case parsed_year filepath of None \<Rightarrow> 0 | Some y \<Rightarrow> y)"

text \<open>
  \<open>image_files.sort(key=extract_year)\<close>: Python's sort is stable, as is insertion by key.
\<close>

definition sort_by_year :: "path list \<Rightarrow> path list" where
  "sort_by_year image_files = sort_key extract_year image_files"

definition years_of :: "path list \<Rightarrow> int list" where
  "years_of image_files = map extract_year image_files"

section \<open>Images and the operations of the imaging library\<close>

text \<open>
  \<open>cv2.imread\<close> with its default flag returns an array of shape (height, width, 3) of
  8-bit channels in the order blue, green, red: an image is its list of rows, a row its
  list of pixels.
\<close>

type_synonym pixel = "nat \<times> nat \<times> nat"
type_synonym image = "pixel list list"

definition shape2 :: "image \<Rightarrow> nat \<times> nat" where
  \<comment> \<open>\<open>img.shape[:2]\<close>, that is (height, width)\<close>
  "shape2 img = (length img, (case img of [] \<Rightarrow> 0 | row # _ \<Rightarrow> length row))"

text \<open>
  \<open>cv2.rectangle(img, pt1, pt2, color, -1)\<close>: the filled rectangle with corners
  \<open>pt1 = (x1, y1)\<close> and \<open>pt2 = (x2, y2)\<close>, both included, clipped to the image.
\<close>

definition in_rect :: "nat \<times> nat \<Rightarrow> nat \<times> nat \<Rightarrow> nat \<Rightarrow> nat \<Rightarrow> bool" where
  "in_rect pt1 pt2 x y = (fst pt1 \<le> x \<and> x \<le> fst pt2 \<and> snd pt1 \<le> y \<and> y \<le> snd pt2)"

definition rectangle_filled :: "image \<Rightarrow> nat \<times> nat \<Rightarrow> nat \<times> nat \<Rightarrow> pixel \<Rightarrow> image" where
  "rectangle_filled img pt1 pt2 color =
     map (\<lambda>(y, row). map (\<lambda>(x, p). if in_rect pt1 pt2 x y then color else p)
                           (zip [0..<length row] row))
         (zip [0..<length img] img)"

text \<open>\<open>str(year)\<close>: the decimal numeral of an integer.\<close>

fun str_nat :: "nat \<Rightarrow> string" where
  "str_nat n =
     (if n < 10 then [char_of (48 + n)]
      else str_nat (n div 10) @ [char_of (48 + n mod 10)])"

definition str_int :: "int \<Rightarrow> string" where
  "str_int i = (if i < 0 then CHR ''-'' # str_nat (nat (- i)) else str_nat (nat i))"

section \<open>Errors, the video writer and the outside world\<close>

datatype error =
    ValueError string
  | FileNotFoundError string
  | IndexError
  | CvError string

text \<open>
  The \<open>cv2.VideoWriter\<close> object. \<open>vw_opened\<close> is what \<open>isOpened()\<close> answered after the
  constructor, \<open>vw_frames\<close> the frames stored in the container so far and
  \<open>vw_releases\<close> the number of \<open>release()\<close> calls (each flushes and closes).
\<close>

record video_writer =
  vw_path :: path
  vw_fps :: int
  vw_size :: "nat \<times> nat"
  vw_opened :: bool
  vw_frames :: "image list"
  vw_releases :: nat

text \<open>
  What the program does not decide itself: the file system and the library calls that can
  fail. \<open>cv_imread\<close> returns \<open>None\<close> where \<open>cv2.imread\<close> does; an \<open>Inl\<close> or \<open>Some\<close> error is a
  raised exception. \<open>cv_VideoWriter\<close> is the constructor: it raises, or it returns a
  writer and the boolean tells whether the container is open (the library reports a
  container it could not open through \<open>isOpened()\<close>, not through an exception).
  The files do not change during a call: reading a path twice gives the same answer.
  \<open>cv_blend\<close> is the arithmetic of \<open>cv2.addWeighted\<close> on one channel: the library evaluates
  \<open>src1 * alpha + src2 * beta + gamma\<close> in single-precision floating point, rounds and
  saturates to 0..255. Its rounding is the library's own and is not fixed here;
  \<open>cv_blend env alpha beta gamma c1 c2\<close> is the value it stores.
\<close>

record world =
  fs_exists :: "path \<Rightarrow> bool"
  fs_listdir :: "path \<Rightarrow> string list"
  cv_imread :: "path \<Rightarrow> image option"
  cv_resize :: "image \<Rightarrow> nat \<times> nat \<Rightarrow> error + image"
  cv_putText :: "image \<Rightarrow> string \<Rightarrow> nat \<times> nat \<Rightarrow> error + image"
  cv_VideoWriter :: "path \<Rightarrow> int \<Rightarrow> nat \<times> nat \<Rightarrow> error + bool"
  cv_write_raises :: "video_writer \<Rightarrow> image \<Rightarrow> error option"
  cv_blend :: "rat \<Rightarrow> rat \<Rightarrow> rat \<Rightarrow> nat \<Rightarrow> nat \<Rightarrow> nat"

definition vw_write :: "world \<Rightarrow> video_writer \<Rightarrow> image \<Rightarrow> error option \<times> video_writer" where
  \<comment> \<open>a write to a writer that is not open, or already released, stores nothing\<close>
  "vw_write env w frame =
     (case cv_write_raises env w frame of
        Some e \<Rightarrow> (Some e, w)
      | None \<Rightarrow>
          (None, if vw_opened w \<and> vw_releases w = 0
                 then w\<lparr>vw_frames := vw_frames w @ [frame]\<rparr> else w))"

definition vw_release :: "video_writer \<Rightarrow> video_writer" where
  "vw_release w = w\<lparr>vw_releases := Suc (vw_releases w)\<rparr>"

text \<open>
  \<open>cv2.addWeighted(src1, alpha, src2, beta, gamma)\<close>: every channel of every pixel of the
  result is the library's blend of the two channels at the same place.
\<close>

definition blend_pixel :: "world \<Rightarrow> rat \<Rightarrow> rat \<Rightarrow> rat \<Rightarrow> pixel \<Rightarrow> pixel \<Rightarrow> pixel" where
  "blend_pixel env alpha beta gamma p1 p2 =
     (case p1 of (b1, g1, r1) \<Rightarrow> case p2 of (b2, g2, r2) \<Rightarrow>
        (cv_blend env alpha beta gamma b1 b2,
         cv_blend env alpha beta gamma g1 g2,
         cv_blend env alpha beta gamma r1 r2))"

definition addWeighted :: "world \<Rightarrow> image \<Rightarrow> rat \<Rightarrow> image \<Rightarrow> rat \<Rightarrow> rat \<Rightarrow> image" where
  "addWeighted env src1 alpha src2 beta gamma =
     map (\<lambda>(row1, row2). map (\<lambda>(p1, p2). blend_pixel env alpha beta gamma p1 p2) (zip row1 row2))
         (zip src1 src2)"

section \<open>The year overlay\<close>

text \<open>
  Arrays are objects that the library calls update in place, so \<open>add_year_overlay\<close> runs
  on a store: a list of arrays, an address being an index into it. A reference that
  the program holds always points to an allocated array. \<open>np_copy\<close> allocates a new array at
  the end of the store.
\<close>

type_synonym addr = nat
type_synonym store = "image list"

definition np_copy :: "store \<Rightarrow> addr \<Rightarrow> store \<times> addr" where
  "np_copy h a = (h @ [h ! a], length h)"

definition cv_rectangle :: "store \<Rightarrow> addr \<Rightarrow> nat \<times> nat \<Rightarrow> nat \<times> nat \<Rightarrow> pixel \<Rightarrow> store" where
  "cv_rectangle h a pt1 pt2 color = h[a := rectangle_filled (h ! a) pt1 pt2 color]"

definition cv_addWeighted ::
  "world \<Rightarrow> store \<Rightarrow> addr \<Rightarrow> rat \<Rightarrow> addr \<Rightarrow> rat \<Rightarrow> rat \<Rightarrow> addr \<Rightarrow> store" where
  \<comment> \<open>the last argument is the destination array\<close>
  "cv_addWeighted env h src1 alpha src2 beta gamma dst =
     h[dst := addWeighted env (h ! src1) alpha (h ! src2) beta gamma]"

text \<open>
  The first part of \<open>add_year_overlay\<close>, up to the blend: two copies, the black rectangle
  drawn on the second, and the blend of the second (weight 0.7) with the first
  (weight 0.3) stored in the first. Returns the store and the address of \<open>img_copy\<close>.
\<close>

definition text_background :: "world \<Rightarrow> store \<Rightarrow> addr \<Rightarrow> store \<times> addr" where
  "text_background env h img =
     (let (h1, img_copy) = np_copy h img;
          (h2, overlay) = np_copy h1 img_copy;
          h3 = cv_rectangle h2 overlay (10, 10) (200, 80) (0, 0, 0);
          h4 = cv_addWeighted env h3 overlay (7 / 10) img_copy (3 / 10) 0 img_copy
      in (h4, img_copy))"

text \<open>
  \<open>add_year_overlay\<close>: the background, then \<open>cv2.putText\<close> of \<open>str(year)\<close> at (20, 50) on
  \<open>img_copy\<close>, in a fixed font, scale, colour and thickness. The glyphs are the
  library's; \<open>cv_putText\<close> stands for the drawing. The unused \<open>getTextSize\<close> call has no
  effect. Without \<open>use_cv2\<close> the argument itself is returned.
\<close>

definition add_year_overlay ::
  "world \<Rightarrow> store \<Rightarrow> addr \<Rightarrow> int \<Rightarrow> bool \<Rightarrow> (error + addr) \<times> store" where
  "add_year_overlay env h img year use_cv2 =
     (if use_cv2 then
        (let (h4, img_copy) = text_background env h img in
         case cv_putText env (h4 ! img_copy) (str_int year) (20, 50) of
           Inl e \<Rightarrow> (Inl e, h4)
         | Inr drawn \<Rightarrow> (Inr img_copy, h4[img_copy := drawn]))
      else (Inr img, h))"

section \<open>The encoder\<close>

text \<open>
  The frame loop of \<open>create_mp4_timelapse\<close> holds one decoded image at a time and shares
  none of them, so it works on image values; the overlay runs in a store that holds just
  the image at hand.
\<close>

definition overlay_frame :: "world \<Rightarrow> image \<Rightarrow> int \<Rightarrow> error + image" where
  "overlay_frame env img year =
     (case add_year_overlay env [img] 0 year True of
        (Inl e, _) \<Rightarrow> Inl e
      | (Inr a, h) \<Rightarrow> Inr (h ! a))"

text \<open>Resize if needed, then the overlay (the middle of the loop body).\<close>

definition composite :: "world \<Rightarrow> nat \<times> nat \<Rightarrow> image \<Rightarrow> int \<Rightarrow> error + image" where
  \<comment> \<open>\<open>dims\<close> is (height, width); \<open>cv2.resize\<close> takes (width, height)\<close>
  "composite env dims img year =
     (case (if shape2 img \<noteq> dims then cv_resize env img (snd dims, fst dims) else Inr img) of
        Inl e \<Rightarrow> Inl e
      | Inr resized \<Rightarrow> overlay_frame env resized year)"

definition frame_duration :: "int \<Rightarrow> int" where
  "frame_duration fps = (if fps = 1 then 2 else max 1 (fps div 2))"

text \<open>\<open>for _ in range(n): video_writer.write(frame)\<close>, left at the first write that raises.\<close>

fun write_repeat :: "world \<Rightarrow> image \<Rightarrow> nat \<Rightarrow> video_writer \<Rightarrow> error option \<times> video_writer" where
  "write_repeat env frame 0 w = (None, w)"
| "write_repeat env frame (Suc n) w =
     (case vw_write env w frame of
        (Some e, w') \<Rightarrow> (Some e, w')
      | (None, w') \<Rightarrow> write_repeat env frame n w')"

record enc_state =
  writer :: video_writer
  warnings :: "path list"

text \<open>
  The body of the \<open>try\<close>: the loop over \<open>zip(image_files, years)\<close>. An image that does not
  decode is logged as a warning and skipped; an exception ends the loop with the state
  reached.
\<close>

fun encode_loop ::
  "world \<Rightarrow> nat \<times> nat \<Rightarrow> int \<Rightarrow> (path \<times> int) list \<Rightarrow> enc_state \<Rightarrow> error option \<times> enc_state" where
  "encode_loop env dims fps [] s = (None, s)"
| "encode_loop env dims fps ((image_file, year) # rest) s =
     (case cv_imread env image_file of
        None \<Rightarrow> encode_loop env dims fps rest (s\<lparr>warnings := warnings s @ [image_file]\<rparr>)
      | Some img \<Rightarrow>
          (case composite env dims img year of
             Inl e \<Rightarrow> (Some e, s)
           | Inr frame \<Rightarrow>
               (case write_repeat env frame (nat (frame_duration fps)) (writer s) of
                  (Some e, w') \<Rightarrow> (Some e, s\<lparr>writer := w'\<rparr>)
                | (None, w') \<Rightarrow> encode_loop env dims fps rest (s\<lparr>writer := w'\<rparr>))))"

text \<open>
  What a call leaves behind: the value returned or the exception raised, the writer if one
  was constructed, in its last state, and the warnings logged.
\<close>

record outcome =
  out_result :: "error + path"
  out_writer :: "video_writer option"
  out_warnings :: "path list"

definition raise :: "error \<Rightarrow> outcome" where
  "raise e = \<lparr>out_result = Inl e, out_writer = None, out_warnings = []\<rparr>"

text \<open>
  \<open>create_mp4_timelapse\<close>. \<open>image_files[0]\<close> of an empty list raises IndexError; a first image
  that does not decode raises ValueError. The writer is constructed before the \<open>try\<close>;
  the \<open>finally\<close> releases it whether the loop ended normally or by an exception, and the
  exception, if any, goes on to the caller after that. The returned \<open>str(output_path)\<close> is
  kept as the path.
\<close>

definition new_writer :: "path \<Rightarrow> int \<Rightarrow> nat \<times> nat \<Rightarrow> bool \<Rightarrow> video_writer" where
  "new_writer output_path fps frame_size is_open =
     \<lparr>vw_path = output_path, vw_fps = fps, vw_size = frame_size,
      vw_opened = is_open, vw_frames = [], vw_releases = 0\<rparr>"

definition create_mp4_timelapse ::
  "world \<Rightarrow> path list \<Rightarrow> int list \<Rightarrow> path \<Rightarrow> int \<Rightarrow> outcome" where
  "create_mp4_timelapse env image_files years output_path fps =
     (case image_files of
        [] \<Rightarrow> raise IndexError
      | first_file # _ \<Rightarrow>
          (case cv_imread env first_file of
             None \<Rightarrow> raise (ValueError ''Could not read image'')
           | Some first_image \<Rightarrow>
               (case shape2 first_image of (height, width) \<Rightarrow>
                  (case cv_VideoWriter env output_path fps (width, height) of
                     Inl e \<Rightarrow> raise e
                   | Inr is_open \<Rightarrow>
                       (let video_writer = new_writer output_path fps (width, height) is_open;
                            (r, s) = encode_loop env (height, width) fps (zip image_files years)
                                       \<lparr>writer = video_writer, warnings = []\<rparr>;
                            released = vw_release (writer s)
                        in \<lparr>out_result = (case r of Some e \<Rightarrow> Inl e | None \<Rightarrow> Inr output_path),
                            out_writer = Some released,
                            out_warnings = warnings s\<rparr>)))))"

text \<open>
  \<open>batch_dir.glob('*.png')\<close>: the entries of the directory, in the order the file system
  lists them, whose name ends in \<open>.png\<close>.
\<close>

definition ends_with :: "string \<Rightarrow> string \<Rightarrow> bool" where
  "ends_with suf s = (length suf \<le> length s \<and> drop (length s - length suf) s = suf)"

definition glob_png :: "world \<Rightarrow> path \<Rightarrow> path list" where
  "glob_png env dir = map (path_join dir) (filter (ends_with ''.png'') (fs_listdir env dir))"

definition create_timelapse_video :: "world \<Rightarrow> string \<Rightarrow> string \<Rightarrow> outcome" where
  "create_timelapse_video env batch_id output_format =
     (if output_format \<noteq> ''mp4'' then raise (ValueError ''Only MP4 format is supported'')
      else
        (let batch_dir = path_join [''output''] batch_id in
         if \<not> fs_exists env batch_dir
         then raise (FileNotFoundError ''Batch directory not found'')
         else
           (let image_files = glob_png env batch_dir in
            if image_files = []
            then raise (FileNotFoundError ''No images found in batch directory'')
            else
              (let sorted_files = sort_by_year image_files;
                   years = years_of sorted_files;
                   output_path = path_join batch_dir (''timelapse_'' @ batch_id @ ''.mp4'')
               in create_mp4_timelapse env sorted_files years output_path 1))))"

text \<open>A file appears at a path when a writer was constructed for it and its container opened.\<close>

definition artifact_created :: "outcome \<Rightarrow> path \<Rightarrow> bool" where
  "artifact_created out p =
     (case out_writer out of None \<Rightarrow> False | Some w \<Rightarrow> vw_opened w \<and> vw_path w = p)"

section \<open>Notions used to state the properties\<close>

text \<open>An entry of \<open>zip(image_files, years)\<close> decodes when \<open>cv2.imread\<close> returns an image for its file.\<close>

definition decodes :: "world \<Rightarrow> path \<times> int \<Rightarrow> bool" where
  "decodes env z = (cv_imread env (fst z) \<noteq> None)"

definition decoded_subset :: "world \<Rightarrow> path list \<Rightarrow> int list \<Rightarrow> (path \<times> int) list" where
  "decoded_subset env image_files years = filter (decodes env) (zip image_files years)"

definition skipped_files :: "world \<Rightarrow> path list \<Rightarrow> int list \<Rightarrow> path list" where
  "skipped_files env image_files years =
     map fst (filter (\<lambda>z. \<not> decodes env z) (zip image_files years))"

text \<open>The composited frame of an entry, when the entry decodes and no library call raises.\<close>

definition composited :: "world \<Rightarrow> nat \<times> nat \<Rightarrow> path \<times> int \<Rightarrow> image option" where
  "composited env dims z =
     (case cv_imread env (fst z) of
        None \<Rightarrow> None
      | Some img \<Rightarrow> (case composite env dims img (snd z) of Inl e \<Rightarrow> None | Inr frame \<Rightarrow> Some frame))"

text \<open>The (height, width) of the first image, which the writer and every frame take.\<close>

definition reference_dims :: "world \<Rightarrow> path list \<Rightarrow> nat \<times> nat" where
  "reference_dims env image_files =
     (case image_files of
        [] \<Rightarrow> (0, 0)
      | first_file # _ \<Rightarrow> (case cv_imread env first_file of None \<Rightarrow> (0, 0) | Some img \<Rightarrow> shape2 img))"

text \<open>A world in which no call of the loop body raises.\<close>

definition never_raises :: "world \<Rightarrow> bool" where
  "never_raises env =
     ((\<forall>img dsize. \<exists>r. cv_resize env img dsize = Inr r) \<and>
      (\<forall>img txt org. \<exists>r. cv_putText env img txt org = Inr r) \<and>
      (\<forall>w frame. cv_write_raises env w frame = None))"

text \<open>
  What is known of the library's blend without fixing its rounding: where the exact value
  lies in 0..255, the stored value is less than one intensity level away from it.
\<close>

definition blend_accurate :: "world \<Rightarrow> bool" where
  "blend_accurate env =
     (\<forall>alpha beta gamma c1 c2.
        0 \<le> of_nat c1 * alpha + of_nat c2 * beta + gamma \<and>
        of_nat c1 * alpha + of_nat c2 * beta + gamma \<le> 255
          \<longrightarrow> \<bar>of_nat (cv_blend env alpha beta gamma c1 c2)
                 - (of_nat c1 * alpha + of_nat c2 * beta + gamma)\<bar> < 1)"

text \<open>A pixel as the decoder delivers it: three 8-bit channels.\<close>

definition is_u8_pixel :: "pixel \<Rightarrow> bool" where
  "is_u8_pixel p = (case p of (b, g, r) \<Rightarrow> b \<le> 255 \<and> g \<le> 255 \<and> r \<le> 255)"

text \<open>Every channel of \<open>p'\<close> is less than one level away from \<open>k\<close> times the channel of \<open>p\<close>.\<close>

definition near_scaled :: "rat \<Rightarrow> pixel \<Rightarrow> pixel \<Rightarrow> bool" where
  "near_scaled k p' p =
     (case p' of (b', g', r') \<Rightarrow> case p of (b, g, r) \<Rightarrow>
        \<bar>of_nat b' - k * of_nat b\<bar> < (1::rat) \<and>
        \<bar>of_nat g' - k * of_nat g\<bar> < (1::rat) \<and>
        \<bar>of_nat r' - k * of_nat r\<bar> < (1::rat))"

text \<open>
  The specification's reading of three notions, to compare the code with: a frame is
  held for \<open>max(1, displaySeconds * framesPerSecond)\<close> writes with a display time of 2
  seconds; a rectangle blended at opacity \<open>op\<close> contributes the weight \<open>op\<close> and the
  frame under it the weight \<open>1 - op\<close>; an eligible image is an image file that does not
  carry the prefix reserved for generated timelapse artifacts.
\<close>

definition display_seconds :: int where
  "display_seconds = 2"

definition spec_frame_duration :: "int \<Rightarrow> int" where
  "spec_frame_duration fps = max 1 (display_seconds * fps)"

definition blend_at_opacity :: "world \<Rightarrow> rat \<Rightarrow> pixel \<Rightarrow> pixel \<Rightarrow> pixel" where
  "blend_at_opacity env op rect_color frame_pixel =
     blend_pixel env op (1 - op) 0 rect_color frame_pixel"

definition starts_with :: "string \<Rightarrow> string \<Rightarrow> bool" where
  "starts_with pre s = (take (length pre) s = pre)"

definition spec_eligible :: "string \<Rightarrow> bool" where
  "spec_eligible name = (ends_with ''.png'' name \<and> \<not> starts_with ''timelapse_'' name)"

text \<open>
  A blend for the example world: the exact value rounded to the nearest integer, ties to
  even, and clamped to 0..255. It is one of the blends that are accurate in the sense
  above and stands for the library only where the program is run on examples.
\<close>

definition round_half_even :: "rat \<Rightarrow> int" where
  "round_half_even x =
     (let f = \<lfloor>x\<rfloor>; d = x - of_int f in
      if d < 1 / 2 then f else if 1 / 2 < d then f + 1 else if even f then f else f + 1)"

definition nearest_blend :: "rat \<Rightarrow> rat \<Rightarrow> rat \<Rightarrow> nat \<Rightarrow> nat \<Rightarrow> nat" where
  "nearest_blend alpha beta gamma c1 c2 =
     nat (max 0 (min 255 (round_half_even (of_nat c1 * alpha + of_nat c2 * beta + gamma))))"

text \<open>
  A small world to run the program in: one batch directory with three images and a text
  file; the image of 1900 does not decode; every image is a single grey pixel; no
  library call raises, the container opens and the blend is the one above.
\<close>

definition studio :: world where
  "studio =
     \<lparr>fs_exists = (\<lambda>p. p = [''output'', ''b1'']),
      fs_listdir = (\<lambda>p. if p = [''output'', ''b1'']
                         then [''b_1_2_3_1950.png'', ''notes.txt'', ''a_1_2_3_1850.png'',
                               ''c_1_2_3_1900.png'']
                         else []),
      cv_imread = (\<lambda>p. if path_name p = ''c_1_2_3_1900.png'' then None
                        else Some [[(100, 100, 100)]]),
      cv_resize = (\<lambda>img dsize. Inr (replicate (snd dsize) (replicate (fst dsize) (0, 0, 0)))),
      cv_putText = (\<lambda>img txt org. Inr img),
      cv_VideoWriter = (\<lambda>p fps frame_size. Inr True),
      cv_write_raises = (\<lambda>w frame. None),
      cv_blend = nearest_blend\<rparr>"

section \<open>The order of the frames\<close>

lemma years_sorted: "sorted (years_of (sort_by_year fs))"
  by (simp add: years_of_def sort_by_year_def)

lemma years_determined:
  assumes "mset fs = mset gs"
  shows "years_of (sort_by_year fs) = sort (years_of gs)"
proof -
  have "mset (years_of (sort_by_year fs)) = mset (years_of gs)"
    using assms by (simp add: years_of_def sort_by_year_def)
  then show ?thesis
    using properties_for_sort [of "years_of (sort_by_year fs)" "years_of gs"] years_sorted
    by simp
qed

lemmas year_defs =
  extract_year_def parsed_year_def year_field_def path_stem_def path_name_def rfind_dot_def
  last_part_def py_int_def str_strip_def digits_val_def is_space_def is_digit_def digit_val_def

text \<open>
  C4. The files are sorted ascending by the year read from the last underscore field of the
  stem, files of equal year keep their discovery order, none is lost or added, and
  the three files named in the specification come out as 1850, 1900, 1950 whatever order
  they were discovered in.
\<close>

theorem sequencer_sorted_stable:
  "sorted (years_of (sort_by_year fs)) \<and>
   mset (sort_by_year fs) = mset fs \<and>
   (\<forall>k. filter (\<lambda>f. extract_year f = k) (sort_by_year fs) = filter (\<lambda>f. extract_year f = k) fs) \<and>
   (mset fs = mset [[''output'', b, ''a_1_2_3_1850.png''], [''output'', b, ''b_1_2_3_1950.png''],
                    [''output'', b, ''c_1_2_3_1900.png'']]
      \<longrightarrow> years_of (sort_by_year fs) = [1850, 1900, 1950])"
proof (intro conjI allI impI)
  show "sorted (years_of (sort_by_year fs))" by (rule years_sorted)
  show "mset (sort_by_year fs) = mset fs" by (simp add: sort_by_year_def)
  show "filter (\<lambda>f. extract_year f = k) (sort_by_year fs) = filter (\<lambda>f. extract_year f = k) fs" for k
    by (simp add: sort_by_year_def sort_key_stable)
next
  assume m: "mset fs = mset [[''output'', b, ''a_1_2_3_1850.png''], [''output'', b, ''b_1_2_3_1950.png''],
                    [''output'', b, ''c_1_2_3_1900.png'']]"
  have a: "extract_year [''output'', b, ''a_1_2_3_1850.png''] = 1850"
   and b: "extract_year [''output'', b, ''b_1_2_3_1950.png''] = 1950"
   and c: "extract_year [''output'', b, ''c_1_2_3_1900.png''] = 1900"
    by (simp_all add: year_defs)
  show "years_of (sort_by_year fs) = [1850, 1900, 1950]"
    unfolding years_determined [OF m] by (simp add: years_of_def a b c)
qed

theorem sequencer_sorted_stable_witness:
  "mset [[''output'', ''b1'', ''b_1_2_3_1950.png''], [''output'', ''b1'', ''c_1_2_3_1900.png''],
         [''output'', ''b1'', ''a_1_2_3_1850.png'']]
     = mset [[''output'', ''b1'', ''a_1_2_3_1850.png''], [''output'', ''b1'', ''b_1_2_3_1950.png''],
             [''output'', ''b1'', ''c_1_2_3_1900.png'']] \<and>
   years_of (sort_by_year [[''output'', ''b1'', ''b_1_2_3_1950.png''],
                           [''output'', ''b1'', ''c_1_2_3_1900.png''],
                           [''output'', ''b1'', ''a_1_2_3_1850.png'']]) = [1850, 1900, 1950]"
proof -
  have m: "mset [[''output'', ''b1'', ''b_1_2_3_1950.png''], [''output'', ''b1'', ''c_1_2_3_1900.png''],
         [''output'', ''b1'', ''a_1_2_3_1850.png'']]
     = mset [[''output'', ''b1'', ''a_1_2_3_1850.png''], [''output'', ''b1'', ''b_1_2_3_1950.png''],
             [''output'', ''b1'', ''c_1_2_3_1900.png'']]"
    by simp
  show ?thesis
    using m sequencer_sorted_stable
      [of "[[''output'', ''b1'', ''b_1_2_3_1950.png''], [''output'', ''b1'', ''c_1_2_3_1900.png''],
            [''output'', ''b1'', ''a_1_2_3_1850.png'']]" "''b1''"]
    by blast
qed

text \<open>
  C5. A file whose last field does not parse gets the key 0 and no exception is raised;
  in the sorted list it stands before every file whose year is positive.
\<close>

theorem unparsable_year_sorts_before_positive_years:
  assumes "parsed_year d = None"
  shows "extract_year d = 0 \<and>
         (\<forall>i j. i < length (sort_by_year fs) \<and> j < length (sort_by_year fs) \<and>
                sort_by_year fs ! j = d \<and> 0 < extract_year (sort_by_year fs ! i) \<longrightarrow> j < i)"
proof (intro conjI allI impI)
  show d0: "extract_year d = 0" using assms by (simp add: extract_year_def)
  fix i j
  assume h: "i < length (sort_by_year fs) \<and> j < length (sort_by_year fs) \<and>
             sort_by_year fs ! j = d \<and> 0 < extract_year (sort_by_year fs ! i)"
  from h have i: "i < length (sort_by_year fs)" and j: "j < length (sort_by_year fs)"
    and dj: "sort_by_year fs ! j = d" and pos: "0 < extract_year (sort_by_year fs ! i)"
    by simp_all
  have srt: "sorted (map extract_year (sort_by_year fs))"
    using years_sorted [of fs] by (simp add: years_of_def)
  show "j < i"
  proof (rule ccontr)
    assume "\<not> j < i"
    then have "i \<le> j" by simp
    from sorted_nth_mono [OF srt this] i j
    have "extract_year (sort_by_year fs ! i) \<le> extract_year (sort_by_year fs ! j)" by simp
    with dj d0 pos show False by simp
  qed
qed

theorem unparsable_year_sorts_before_positive_years_witness:
  "parsed_year [''output'', ''b1'', ''d_1_2_3_oops.png''] = None \<and>
   extract_year [''output'', ''b1'', ''d_1_2_3_oops.png''] = 0 \<and>
   sort_by_year [[''output'', ''b1'', ''a_1_2_3_1850.png''], [''output'', ''b1'', ''d_1_2_3_oops.png'']] ! 0
     = [''output'', ''b1'', ''d_1_2_3_oops.png''] \<and>
   0 < extract_year (sort_by_year [[''output'', ''b1'', ''a_1_2_3_1850.png''],
                                    [''output'', ''b1'', ''d_1_2_3_oops.png'']] ! 1) \<and>
   (0::nat) < 1"
proof -
  have p: "parsed_year [''output'', ''b1'', ''d_1_2_3_oops.png''] = None"
    by (simp add: year_defs)
  have a: "extract_year [''output'', ''b1'', ''a_1_2_3_1850.png''] = 1850"
    by (simp add: year_defs)
  have d: "extract_year [''output'', ''b1'', ''d_1_2_3_oops.png''] = 0"
    using p by (simp add: extract_year_def)
  have s: "sort_by_year [[''output'', ''b1'', ''a_1_2_3_1850.png''], [''output'', ''b1'', ''d_1_2_3_oops.png'']]
     = [[''output'', ''b1'', ''d_1_2_3_oops.png''], [''output'', ''b1'', ''a_1_2_3_1850.png'']]"
    by (simp add: sort_by_year_def a d)
  show ?thesis
    using p unparsable_year_sorts_before_positive_years
      [OF p, of "[[''output'', ''b1'', ''a_1_2_3_1850.png''], [''output'', ''b1'', ''d_1_2_3_oops.png'']]"]
    by (simp add: s a)
qed

theorem unparsable_year_not_before_negative_year:
  "parsed_year [''output'', ''b1'', ''d_1_2_3_oops.png''] = None \<and>
   parsed_year [''output'', ''b1'', ''e_1_2_3_-50.png''] = Some (- 50) \<and>
   sort_by_year [[''output'', ''b1'', ''d_1_2_3_oops.png''], [''output'', ''b1'', ''e_1_2_3_-50.png'']]
     = [[''output'', ''b1'', ''e_1_2_3_-50.png''], [''output'', ''b1'', ''d_1_2_3_oops.png'']]"
proof -
  have d: "parsed_year [''output'', ''b1'', ''d_1_2_3_oops.png''] = None"
    by (simp add: year_defs)
  have e: "parsed_year [''output'', ''b1'', ''e_1_2_3_-50.png''] = Some (- 50)"
    by (simp add: year_defs)
  show ?thesis
    by (simp add: d e sort_by_year_def extract_year_def)
qed

section \<open>The writer through the frame loop\<close>

lemma vw_write_fields:
  assumes "vw_write env w frame = (r, w')"
  shows "vw_releases w' = vw_releases w \<and> vw_opened w' = vw_opened w \<and> vw_path w' = vw_path w
         \<and> vw_fps w' = vw_fps w \<and> vw_size w' = vw_size w"
  using assms by (auto simp: vw_write_def split: option.splits if_splits)

lemma write_repeat_fields:
  "write_repeat env frame n w = (r, w') \<Longrightarrow>
     vw_releases w' = vw_releases w \<and> vw_opened w' = vw_opened w \<and> vw_path w' = vw_path w
     \<and> vw_fps w' = vw_fps w \<and> vw_size w' = vw_size w"
proof (induction n arbitrary: w)
  case 0
  then show ?case by simp
next
  case (Suc n)
  obtain r1 w1 where w1: "vw_write env w frame = (r1, w1)" by (cases "vw_write env w frame")
  show ?case
  proof (cases r1)
    case None
    with Suc.prems w1 have "write_repeat env frame n w1 = (r, w')" by simp
    from Suc.IH [OF this] vw_write_fields [OF w1] show ?thesis by simp
  next
    case (Some e)
    with Suc.prems w1 have "w' = w1" by simp
    with vw_write_fields [OF w1] show ?thesis by simp
  qed
qed

lemma write_repeat_frames:
  "write_repeat env frame n w = (None, w') \<Longrightarrow>
     vw_frames w' = vw_frames w @ (if vw_opened w \<and> vw_releases w = 0 then replicate n frame else [])"
proof (induction n arbitrary: w)
  case 0
  then show ?case by simp
next
  case (Suc n)
  obtain r1 w1 where w1: "vw_write env w frame = (r1, w1)" by (cases "vw_write env w frame")
  with Suc.prems have r1: "r1 = None" and rest: "write_repeat env frame n w1 = (None, w')"
    by (auto split: option.splits)
  have f1: "vw_frames w1 = vw_frames w @ (if vw_opened w \<and> vw_releases w = 0 then [frame] else [])"
    using w1 r1 by (auto simp: vw_write_def split: option.splits if_splits)
  from Suc.IH [OF rest] vw_write_fields [OF w1] f1 show ?case
    by (simp add: replicate_app_Cons_same)
qed

lemma encode_loop_fields:
  "encode_loop env dims fps zs s = (r, s') \<Longrightarrow>
     vw_releases (writer s') = vw_releases (writer s) \<and> vw_opened (writer s') = vw_opened (writer s)
     \<and> vw_path (writer s') = vw_path (writer s) \<and> vw_fps (writer s') = vw_fps (writer s)
     \<and> vw_size (writer s') = vw_size (writer s)"
proof (induction env dims fps zs s rule: encode_loop.induct)
  case (1 env dims fps s)
  then show ?case by simp
next
  case (2 env dims fps image_file year rest s)
  show ?case
  proof (cases "cv_imread env image_file")
    case None
    with "2.prems" "2.IH"(1) show ?thesis by simp
  next
    case (Some img)
    show ?thesis
    proof (cases "composite env dims img year")
      case (Inl e)
      with Some "2.prems" show ?thesis by simp
    next
      case (Inr frame)
      obtain r1 w1 where wr: "write_repeat env frame (nat (frame_duration fps)) (writer s) = (r1, w1)"
        by (cases "write_repeat env frame (nat (frame_duration fps)) (writer s)")
      note f = write_repeat_fields [OF wr]
      show ?thesis
      proof (cases r1)
        case None
        with Some Inr wr "2.prems" have "encode_loop env dims fps rest (s\<lparr>writer := w1\<rparr>) = (r, s')" by simp
        from "2.IH"(2) [OF Some Inr wr [symmetric, unfolded None] refl this] f
        show ?thesis by simp
      next
        case (Some e)
        with \<open>cv_imread env image_file = Some img\<close> Inr wr "2.prems" have "s' = s\<lparr>writer := w1\<rparr>" by simp
        with f show ?thesis by simp
      qed
    qed
  qed
qed

lemma encode_loop_success:
  "encode_loop env dims fps zs s = (None, s') \<Longrightarrow>
     vw_frames (writer s') =
       vw_frames (writer s) @
       (if vw_opened (writer s) \<and> vw_releases (writer s) = 0
        then concat (map (\<lambda>z. case composited env dims z of
                                 None \<Rightarrow> []
                               | Some frame \<Rightarrow> replicate (nat (frame_duration fps)) frame)
                         (filter (decodes env) zs))
        else []) \<and>
     (\<forall>z. z \<in> set zs \<and> decodes env z \<longrightarrow> composited env dims z \<noteq> None) \<and>
     warnings s' = warnings s @ map fst (filter (\<lambda>z. \<not> decodes env z) zs)"
proof (induction env dims fps zs s rule: encode_loop.induct)
  case (1 env dims fps s)
  then show ?case by simp
next
  case (2 env dims fps image_file year rest s)
  show ?case
  proof (cases "cv_imread env image_file")
    case None
    with "2.prems" have run: "encode_loop env dims fps rest (s\<lparr>warnings := warnings s @ [image_file]\<rparr>) = (None, s')"
      by simp
    from "2.IH"(1) [OF None run] None show ?thesis
      by (auto simp: decodes_def)
  next
    case (Some img)
    from Some "2.prems" obtain frame where fr: "composite env dims img year = Inr frame"
      by (cases "composite env dims img year") auto
    obtain r1 w1 where wr: "write_repeat env frame (nat (frame_duration fps)) (writer s) = (r1, w1)"
      by (cases "write_repeat env frame (nat (frame_duration fps)) (writer s)")
    from Some fr wr "2.prems" have r1: "r1 = None"
      by (cases r1) auto
    with Some fr wr "2.prems" have run: "encode_loop env dims fps rest (s\<lparr>writer := w1\<rparr>) = (None, s')"
      by simp
    note ih = "2.IH"(2) [OF Some fr wr [symmetric, unfolded r1] refl run]
    note f = write_repeat_fields [OF wr] write_repeat_frames [OF wr [unfolded r1]]
    have c: "composited env dims (image_file, year) = Some frame"
      by (simp add: composited_def Some fr)
    have d: "decodes env (image_file, year)"
      by (simp add: decodes_def Some)
    from ih f c d show ?thesis
      by auto
  qed
qed

lemma encode_loop_writer_only:
  "writer s = writer t \<Longrightarrow>
     fst (encode_loop env dims fps zs s) = fst (encode_loop env dims fps zs t) \<and>
     writer (snd (encode_loop env dims fps zs s)) = writer (snd (encode_loop env dims fps zs t))"
proof (induction env dims fps zs s arbitrary: t rule: encode_loop.induct)
  case (1 env dims fps s)
  then show ?case by simp
next
  case (2 env dims fps image_file year rest s)
  show ?case
  proof (cases "cv_imread env image_file")
    case None
    from "2.IH"(1) [OF None, of "t\<lparr>warnings := warnings t @ [image_file]\<rparr>"] "2.prems" None
    show ?thesis by simp
  next
    case (Some img)
    show ?thesis
    proof (cases "composite env dims img year")
      case (Inl e)
      with Some "2.prems" show ?thesis by simp
    next
      case (Inr frame)
      obtain r1 w1 where wr: "write_repeat env frame (nat (frame_duration fps)) (writer s) = (r1, w1)"
        by (cases "write_repeat env frame (nat (frame_duration fps)) (writer s)")
      show ?thesis
      proof (cases r1)
        case None
        from "2.IH"(2) [OF Some Inr wr [symmetric, unfolded None] refl, of "t\<lparr>writer := w1\<rparr>"]
          Some Inr wr None "2.prems"
        show ?thesis by simp
      next
        case (Some e)
        with \<open>cv_imread env image_file = Some img\<close> Inr wr "2.prems" show ?thesis by simp
      qed
    qed
  qed
qed

lemma encode_loop_skips:
  "fst (encode_loop env dims fps (filter (decodes env) zs) s) = fst (encode_loop env dims fps zs s) \<and>
   writer (snd (encode_loop env dims fps (filter (decodes env) zs) s))
     = writer (snd (encode_loop env dims fps zs s))"
proof (induction zs arbitrary: s)
  case Nil
  show ?case by simp
next
  case (Cons z zs)
  obtain image_file year where z: "z = (image_file, year)" by (cases z)
  show ?case
  proof (cases "cv_imread env image_file")
    case None
    have nd: "\<not> decodes env z" using None z by (simp add: decodes_def)
    have "writer s = writer (s\<lparr>warnings := warnings s @ [image_file]\<rparr>)" by simp
    from encode_loop_writer_only [OF this, of env dims fps "filter (decodes env) zs"]
      Cons.IH [of "s\<lparr>warnings := warnings s @ [image_file]\<rparr>"] None z nd
    show ?thesis by simp
  next
    case (Some img)
    have dz: "decodes env z" using Some z by (simp add: decodes_def)
    show ?thesis
    proof (cases "composite env dims img year")
      case (Inl e)
      with Some z dz show ?thesis by simp
    next
      case (Inr frame)
      obtain r1 w1 where wr: "write_repeat env frame (nat (frame_duration fps)) (writer s) = (r1, w1)"
        by (cases "write_repeat env frame (nat (frame_duration fps)) (writer s)")
      show ?thesis
      proof (cases r1)
        case None
        with Cons.IH [of "s\<lparr>writer := w1\<rparr>"] Some Inr wr z dz show ?thesis
          by simp
      next
        case (Some e)
        with \<open>cv_imread env image_file = Some img\<close> Inr wr z dz show ?thesis
          by simp
      qed
    qed
  qed
qed

lemma overlay_frame_never_raises:
  "never_raises env \<Longrightarrow> \<exists>frame. overlay_frame env img year = Inr frame"
proof -
  assume n: "never_raises env"
  obtain h4 c where tb: "text_background env [img] 0 = (h4, c)"
    by (cases "text_background env [img] 0")
  from n obtain drawn where "cv_putText env (h4 ! c) (str_int year) (20, 50) = Inr drawn"
    unfolding never_raises_def by blast
  with tb show ?thesis
    by (simp add: overlay_frame_def add_year_overlay_def)
qed

lemma composite_never_raises:
  assumes "never_raises env"
  shows "\<exists>frame. composite env dims img year = Inr frame"
proof (cases "shape2 img \<noteq> dims")
  case True
  from assms obtain r where "cv_resize env img (snd dims, fst dims) = Inr r"
    unfolding never_raises_def by blast
  with True overlay_frame_never_raises [OF assms, of r year] show ?thesis
    by (auto simp: composite_def)
next
  case False
  with overlay_frame_never_raises [OF assms, of img year] show ?thesis
    by (auto simp: composite_def)
qed

lemma write_repeat_never_raises:
  "never_raises env \<Longrightarrow> fst (write_repeat env frame n w) = None"
proof (induction n arbitrary: w)
  case 0
  show ?case by simp
next
  case (Suc n)
  from Suc.prems have "cv_write_raises env w frame = None"
    unfolding never_raises_def by blast
  with Suc.IH [OF Suc.prems] show ?case
    by (simp add: vw_write_def)
qed

lemma encode_loop_never_raises:
  "never_raises env \<Longrightarrow> fst (encode_loop env dims fps zs s) = None"
proof (induction env dims fps zs s rule: encode_loop.induct)
  case (1 env dims fps s)
  show ?case by simp
next
  case (2 env dims fps image_file year rest s)
  show ?case
  proof (cases "cv_imread env image_file")
    case None
    with "2.IH"(1) [OF None "2.prems"] show ?thesis by simp
  next
    case (Some img)
    from composite_never_raises [OF "2.prems", of dims img year]
    obtain frame where fr: "composite env dims img year = Inr frame" by blast
    obtain r1 w1 where wr: "write_repeat env frame (nat (frame_duration fps)) (writer s) = (r1, w1)"
      by (cases "write_repeat env frame (nat (frame_duration fps)) (writer s)")
    with write_repeat_never_raises [OF "2.prems", of frame "nat (frame_duration fps)" "writer s"]
    have r1: "r1 = None" by simp
    from "2.IH"(2) [OF Some fr wr [symmetric, unfolded r1] refl "2.prems"] Some fr wr r1
    show ?thesis by simp
  qed
qed

section \<open>Runs of the encoder\<close>

lemma create_mp4_timelapse_constructed:
  assumes "image_files = first_file # others"
    and "cv_imread env first_file = Some first_image"
    and "cv_VideoWriter env output_path fps (snd (shape2 first_image), fst (shape2 first_image)) = Inr is_open"
  shows "create_mp4_timelapse env image_files years output_path fps =
           (let run = encode_loop env (shape2 first_image) fps (zip image_files years)
                        \<lparr>writer = new_writer output_path fps
                                    (snd (shape2 first_image), fst (shape2 first_image)) is_open,
                         warnings = []\<rparr>
            in \<lparr>out_result = (case fst run of Some e \<Rightarrow> Inl e | None \<Rightarrow> Inr output_path),
                out_writer = Some (vw_release (writer (snd run))),
                out_warnings = warnings (snd run)\<rparr>)"
  using assms
  by (cases "shape2 first_image")
     (simp add: create_mp4_timelapse_def Let_def split: prod.splits)

lemma create_mp4_timelapse_writerE:
  assumes "out_writer (create_mp4_timelapse env image_files years output_path fps) = Some w"
  obtains first_file others first_image is_open where
    "image_files = first_file # others"
    "cv_imread env first_file = Some first_image"
    "cv_VideoWriter env output_path fps (snd (shape2 first_image), fst (shape2 first_image)) = Inr is_open"
  using assms
  by (auto simp: create_mp4_timelapse_def raise_def split: list.splits option.splits sum.splits prod.splits)

lemma run_frames:
  assumes res: "out_result (create_mp4_timelapse env image_files years output_path fps) = Inr p"
    and wr: "out_writer (create_mp4_timelapse env image_files years output_path fps) = Some w"
    and op: "vw_opened w"
  shows "vw_frames w =
           concat (map (\<lambda>z. case composited env (reference_dims env image_files) z of
                               None \<Rightarrow> []
                             | Some frame \<Rightarrow> replicate (nat (frame_duration fps)) frame)
                       (decoded_subset env image_files years))"
    and "\<forall>z. z \<in> set (decoded_subset env image_files years) \<longrightarrow>
             composited env (reference_dims env image_files) z \<noteq> None"
    and "out_warnings (create_mp4_timelapse env image_files years output_path fps)
           = skipped_files env image_files years"
proof -
  from wr obtain first_file others first_image is_open where
    c: "image_files = first_file # others"
       "cv_imread env first_file = Some first_image"
       "cv_VideoWriter env output_path fps (snd (shape2 first_image), fst (shape2 first_image)) = Inr is_open"
    by (rule create_mp4_timelapse_writerE)
  let ?s0 = "\<lparr>writer = new_writer output_path fps
                                    (snd (shape2 first_image), fst (shape2 first_image)) is_open,
                         warnings = []\<rparr>"
  obtain r s where run: "encode_loop env (shape2 first_image) fps (zip image_files years) ?s0 = (r, s)"
    by (cases "encode_loop env (shape2 first_image) fps (zip image_files years) ?s0")
  note unf = create_mp4_timelapse_constructed [OF c, of years]
  from res unf run have r: "r = None" by (cases r) (simp_all add: Let_def)
  from wr unf run have w: "w = vw_release (writer s)" by (simp add: Let_def)
  note fl = encode_loop_fields [OF run]
  from op w fl have io: "is_open" by (simp add: vw_release_def new_writer_def)
  have rd: "reference_dims env image_files = shape2 first_image"
    using c by (simp add: reference_dims_def)
  note suc = encode_loop_success [OF run [unfolded r]]
  from suc io w show "vw_frames w =
           concat (map (\<lambda>z. case composited env (reference_dims env image_files) z of
                               None \<Rightarrow> []
                             | Some frame \<Rightarrow> replicate (nat (frame_duration fps)) frame)
                       (decoded_subset env image_files years))"
    by (simp add: rd decoded_subset_def vw_release_def new_writer_def)
  from suc show "\<forall>z. z \<in> set (decoded_subset env image_files years) \<longrightarrow>
             composited env (reference_dims env image_files) z \<noteq> None"
    by (simp add: rd decoded_subset_def)
  from suc unf run show "out_warnings (create_mp4_timelapse env image_files years output_path fps)
           = skipped_files env image_files years"
    by (simp add: Let_def skipped_files_def)
qed

lemma length_concat_replicate:
  "\<forall>z. z \<in> set zs \<longrightarrow> g z \<noteq> None \<Longrightarrow>
   length (concat (map (\<lambda>z. case g z of None \<Rightarrow> [] | Some frame \<Rightarrow> replicate n frame) zs))
     = n * length zs"
  by (induction zs) (auto split: option.splits)

text \<open>
  C1. Once the writer has been constructed, it is released exactly once when the call
  ends, on every path. The call returns the output path exactly when the frame loop ended
  without an exception; an exception raised in the loop, while compositing or writing,
  is what the call raises, and it reaches the caller together with the writer as the loop
  left it, released once.
\<close>

theorem writer_released_exactly_once:
  assumes "image_files = first_file # others"
    and "cv_imread env first_file = Some first_image"
    and "cv_VideoWriter env output_path fps (snd (shape2 first_image), fst (shape2 first_image)) = Inr is_open"
  shows "\<exists>r s. encode_loop env (shape2 first_image) fps (zip image_files years)
                  \<lparr>writer = new_writer output_path fps
                              (snd (shape2 first_image), fst (shape2 first_image)) is_open,
                   warnings = []\<rparr> = (r, s) \<and>
               out_result (create_mp4_timelapse env image_files years output_path fps)
                 = (case r of Some e \<Rightarrow> Inl e | None \<Rightarrow> Inr output_path) \<and>
               out_writer (create_mp4_timelapse env image_files years output_path fps)
                 = Some (vw_release (writer s)) \<and>
               vw_releases (writer s) = 0 \<and>
               vw_releases (vw_release (writer s)) = 1 \<and>
               vw_path (vw_release (writer s)) = output_path"
proof -
  let ?s0 = "\<lparr>writer = new_writer output_path fps
                                    (snd (shape2 first_image), fst (shape2 first_image)) is_open,
                         warnings = []\<rparr>"
  obtain r s where run: "encode_loop env (shape2 first_image) fps (zip image_files years) ?s0 = (r, s)"
    by (cases "encode_loop env (shape2 first_image) fps (zip image_files years) ?s0")
  from encode_loop_fields [OF run]
  have "vw_releases (writer s) = 0" and "vw_path (writer s) = output_path"
    by (simp_all add: new_writer_def)
  with create_mp4_timelapse_constructed [OF assms, of years] run show ?thesis
    by (simp add: Let_def vw_release_def)
qed

theorem writer_released_exactly_once_witness:
  "cv_imread studio [''output'', ''b1'', ''a_1_2_3_1850.png''] = Some [[(100, 100, 100)]] \<and>
   (\<exists>s. encode_loop
           (studio\<lparr>cv_write_raises :=
              (\<lambda>w frame. if length (vw_frames w) = 1 then Some (CvError ''write failed'') else None)\<rparr>)
           (1, 1) 1
           [([''output'', ''b1'', ''a_1_2_3_1850.png''], 1850),
            ([''output'', ''b1'', ''b_1_2_3_1950.png''], 1950)]
           \<lparr>writer = new_writer [''output'', ''b1'', ''timelapse_b1.mp4''] 1 (1, 1) True,
            warnings = []\<rparr>
         = (Some (CvError ''write failed''), s) \<and>
        create_mp4_timelapse
           (studio\<lparr>cv_write_raises :=
              (\<lambda>w frame. if length (vw_frames w) = 1 then Some (CvError ''write failed'') else None)\<rparr>)
           [[''output'', ''b1'', ''a_1_2_3_1850.png''], [''output'', ''b1'', ''b_1_2_3_1950.png'']]
           [1850, 1950] [''output'', ''b1'', ''timelapse_b1.mp4''] 1
         = \<lparr>out_result = Inl (CvError ''write failed''),
            out_writer = Some (vw_release (writer s)), out_warnings = []\<rparr> \<and>
        vw_releases (vw_release (writer s)) = 1 \<and>
        vw_frames (vw_release (writer s)) = [[[(100, 100, 100)]]])"
proof -
  let ?env = "studio\<lparr>cv_write_raises :=
              (\<lambda>w frame. if length (vw_frames w) = 1 then Some (CvError ''write failed'') else None)\<rparr>"
  let ?files = "[[''output'', ''b1'', ''a_1_2_3_1850.png''], [''output'', ''b1'', ''b_1_2_3_1950.png'']]"
  let ?out = "[''output'', ''b1'', ''timelapse_b1.mp4'']"
  have rd: "cv_imread ?env [''output'', ''b1'', ''a_1_2_3_1850.png''] = Some [[(100, 100, 100)]]"
    by (simp add: studio_def path_name_def)
  have rd': "cv_imread studio [''output'', ''b1'', ''a_1_2_3_1850.png''] = Some [[(100, 100, 100)]]"
    by (simp add: studio_def path_name_def)
  have op: "cv_VideoWriter ?env ?out 1 (snd (shape2 [[(100, 100, 100)]]), fst (shape2 [[(100, 100, 100)]])) = Inr True"
    by (simp add: studio_def)
  have sh: "shape2 [[(100, 100, 100)]] = (1, 1)" by (simp add: shape2_def)
  have ev: "create_mp4_timelapse ?env ?files [1850, 1950] ?out 1
         = \<lparr>out_result = Inl (CvError ''write failed''),
            out_writer = Some \<lparr>vw_path = ?out, vw_fps = 1, vw_size = (1, 1), vw_opened = True,
                                vw_frames = [[[(100, 100, 100)]]], vw_releases = 1\<rparr>,
            out_warnings = []\<rparr>"
    by code_simp
  from writer_released_exactly_once [OF refl rd op, of "[[''output'', ''b1'', ''b_1_2_3_1950.png'']]" "[1850, 1950]"]
  obtain r s where
    run: "encode_loop ?env (1, 1) 1
            [([''output'', ''b1'', ''a_1_2_3_1850.png''], 1850),
             ([''output'', ''b1'', ''b_1_2_3_1950.png''], 1950)]
            \<lparr>writer = new_writer ?out 1 (1, 1) True, warnings = []\<rparr> = (r, s)"
    and res: "out_result (create_mp4_timelapse ?env ?files [1850, 1950] ?out 1)
                = (case r of Some e \<Rightarrow> Inl e | None \<Rightarrow> Inr ?out)"
    and wr: "out_writer (create_mp4_timelapse ?env ?files [1850, 1950] ?out 1)
                = Some (vw_release (writer s))"
    and rel: "vw_releases (vw_release (writer s)) = 1"
    unfolding sh by auto
  from res ev have r: "r = Some (CvError ''write failed'')"
    by (cases r) simp_all
  from wr ev have w: "vw_release (writer s)
       = \<lparr>vw_path = ?out, vw_fps = 1, vw_size = (1, 1), vw_opened = True,
          vw_frames = [[[(100, 100, 100)]]], vw_releases = 1\<rparr>"
    by simp
  show ?thesis
    using rd' run [unfolded r] ev w by (intro conjI exI [of _ s]) simp_all
qed

lemma create_mp4_timelapse_open_raises:
  assumes "image_files = first_file # others"
    and "cv_imread env first_file = Some first_image"
    and "cv_VideoWriter env output_path fps (snd (shape2 first_image), fst (shape2 first_image)) = Inl e"
  shows "create_mp4_timelapse env image_files years output_path fps = raise e"
  using assms
  by (cases "shape2 first_image") (simp add: create_mp4_timelapse_def)

text \<open>
  C2. When the first image decodes, images that do not decode change neither the result
  nor the video: the call ends as it would on the decoded entries alone. A call that
  returns has logged one warning for each of them, in order, and in a world where no
  library call raises the call returns the output path. Every image comes with its
  year, so the list of years is not empty.
\<close>

theorem undecodable_images_are_skipped:
  assumes "image_files = first_file # others"
    and "cv_imread env first_file = Some first_image"
    and "years \<noteq> []"
  shows "out_result (create_mp4_timelapse env image_files years output_path fps)
           = out_result (create_mp4_timelapse env
                           (map fst (decoded_subset env image_files years))
                           (map snd (decoded_subset env image_files years)) output_path fps) \<and>
         out_writer (create_mp4_timelapse env image_files years output_path fps)
           = out_writer (create_mp4_timelapse env
                           (map fst (decoded_subset env image_files years))
                           (map snd (decoded_subset env image_files years)) output_path fps) \<and>
         ((\<exists>p. out_result (create_mp4_timelapse env image_files years output_path fps) = Inr p)
            \<longrightarrow> out_warnings (create_mp4_timelapse env image_files years output_path fps)
                  = skipped_files env image_files years) \<and>
         (never_raises env \<and>
          (\<exists>is_open. cv_VideoWriter env output_path fps
                         (snd (shape2 first_image), fst (shape2 first_image)) = Inr is_open)
            \<longrightarrow> out_result (create_mp4_timelapse env image_files years output_path fps)
                  = Inr output_path)"
proof -
  let ?size = "(snd (shape2 first_image), fst (shape2 first_image))"
  let ?ds = "decoded_subset env image_files years"
  let ?o = "create_mp4_timelapse env image_files years output_path fps"
  let ?o' = "create_mp4_timelapse env (map fst ?ds) (map snd ?ds) output_path fps"
  from assms(3) obtain y ys where ys: "years = y # ys" by (cases years) auto
  have ds: "?ds = (first_file, y) # filter (decodes env) (zip others ys)"
    using assms(1,2) ys by (simp add: decoded_subset_def decodes_def)
  then have hd: "map fst ?ds = first_file # map fst (filter (decodes env) (zip others ys))"
    by simp
  have zp: "zip (map fst ?ds) (map snd ?ds) = ?ds"
    by (simp add: zip_map_fst_snd)
  have same: "out_result ?o = out_result ?o' \<and> out_writer ?o = out_writer ?o'"
  proof (cases "cv_VideoWriter env output_path fps ?size")
    case (Inl e)
    from create_mp4_timelapse_open_raises [OF assms(1,2) Inl, of years]
      create_mp4_timelapse_open_raises [OF hd assms(2) Inl, of "map snd ?ds"]
    show ?thesis by simp
  next
    case (Inr is_open)
    let ?s0 = "\<lparr>writer = new_writer output_path fps ?size is_open, warnings = []\<rparr>"
    from encode_loop_skips [of env "shape2 first_image" fps "zip image_files years" ?s0]
    have "fst (encode_loop env (shape2 first_image) fps ?ds ?s0)
            = fst (encode_loop env (shape2 first_image) fps (zip image_files years) ?s0)"
      and "writer (snd (encode_loop env (shape2 first_image) fps ?ds ?s0))
            = writer (snd (encode_loop env (shape2 first_image) fps (zip image_files years) ?s0))"
      by (simp_all add: decoded_subset_def)
    with create_mp4_timelapse_constructed [OF assms(1,2) Inr, of years]
      create_mp4_timelapse_constructed [OF hd assms(2) Inr, of "map snd ?ds"]
    show ?thesis by (simp add: Let_def zp)
  qed
  have warn: "out_warnings ?o = skipped_files env image_files years" if "out_result ?o = Inr p" for p
  proof (cases "cv_VideoWriter env output_path fps ?size")
    case (Inl e)
    from create_mp4_timelapse_open_raises [OF assms(1,2) Inl, of years] that
    show ?thesis by (simp add: raise_def)
  next
    case (Inr is_open)
    let ?s0 = "\<lparr>writer = new_writer output_path fps ?size is_open, warnings = []\<rparr>"
    obtain r s where run: "encode_loop env (shape2 first_image) fps (zip image_files years) ?s0 = (r, s)"
      by (cases "encode_loop env (shape2 first_image) fps (zip image_files years) ?s0")
    note unf = create_mp4_timelapse_constructed [OF assms(1,2) Inr, of years]
    from that unf run have r: "r = None" by (cases r) (simp_all add: Let_def)
    from encode_loop_success [OF run [unfolded r]] unf run show ?thesis
      by (simp add: Let_def skipped_files_def)
  qed
  have ok: "out_result ?o = Inr output_path"
    if n: "never_raises env" and c: "cv_VideoWriter env output_path fps ?size = Inr is_open" for is_open
    using create_mp4_timelapse_constructed [OF assms(1,2) c, of years]
      encode_loop_never_raises [OF n, of "shape2 first_image" fps "zip image_files years"
        "\<lparr>writer = new_writer output_path fps ?size is_open, warnings = []\<rparr>"]
    by (simp add: Let_def)
  from same warn ok show ?thesis by blast
qed

lemma never_raises_studio: "never_raises studio"
  by (simp add: never_raises_def studio_def)

theorem undecodable_images_are_skipped_witness:
  "cv_imread studio [''output'', ''b1'', ''a_1_2_3_1850.png''] = Some [[(100, 100, 100)]] \<and>
   cv_imread studio [''output'', ''b1'', ''c_1_2_3_1900.png''] = None \<and>
   never_raises studio \<and>
   out_result (create_mp4_timelapse studio
      [[''output'', ''b1'', ''a_1_2_3_1850.png''], [''output'', ''b1'', ''c_1_2_3_1900.png''],
       [''output'', ''b1'', ''b_1_2_3_1950.png'']]
      [1850, 1900, 1950] [''output'', ''b1'', ''timelapse_b1.mp4''] 1)
     = Inr [''output'', ''b1'', ''timelapse_b1.mp4''] \<and>
   out_warnings (create_mp4_timelapse studio
      [[''output'', ''b1'', ''a_1_2_3_1850.png''], [''output'', ''b1'', ''c_1_2_3_1900.png''],
       [''output'', ''b1'', ''b_1_2_3_1950.png'']]
      [1850, 1900, 1950] [''output'', ''b1'', ''timelapse_b1.mp4''] 1)
     = [[''output'', ''b1'', ''c_1_2_3_1900.png'']] \<and>
   out_writer (create_mp4_timelapse studio
      [[''output'', ''b1'', ''a_1_2_3_1850.png''], [''output'', ''b1'', ''c_1_2_3_1900.png''],
       [''output'', ''b1'', ''b_1_2_3_1950.png'']]
      [1850, 1900, 1950] [''output'', ''b1'', ''timelapse_b1.mp4''] 1)
     = out_writer (create_mp4_timelapse studio
      [[''output'', ''b1'', ''a_1_2_3_1850.png''], [''output'', ''b1'', ''b_1_2_3_1950.png'']]
      [1850, 1950] [''output'', ''b1'', ''timelapse_b1.mp4''] 1)"
proof -
  let ?a = "[''output'', ''b1'', ''a_1_2_3_1850.png'']"
  let ?b = "[''output'', ''b1'', ''b_1_2_3_1950.png'']"
  let ?c = "[''output'', ''b1'', ''c_1_2_3_1900.png'']"
  let ?out = "[''output'', ''b1'', ''timelapse_b1.mp4'']"
  have a: "cv_imread studio ?a = Some [[(100, 100, 100)]]"
   and b: "cv_imread studio ?b = Some [[(100, 100, 100)]]"
   and c: "cv_imread studio ?c = None"
    by (simp_all add: studio_def path_name_def)
  have op: "cv_VideoWriter studio ?out 1
              (snd (shape2 [[(100, 100, 100)]]), fst (shape2 [[(100, 100, 100)]])) = Inr True"
    by (simp add: studio_def)
  have ds: "decoded_subset studio [?a, ?c, ?b] [1850, 1900, 1950] = [(?a, 1850), (?b, 1950)]"
    by (simp add: decoded_subset_def decodes_def a b c)
  have sk: "skipped_files studio [?a, ?c, ?b] [1850, 1900, 1950] = [?c]"
    by (simp add: skipped_files_def decodes_def a b c)
  have y: "[1850, 1900, 1950] \<noteq> ([] :: int list)" by simp
  from undecodable_images_are_skipped [OF refl a y, of "[?c, ?b]" ?out 1] never_raises_studio op
  show ?thesis
    unfolding ds sk using a c by auto
qed

theorem first_image_undecodable_aborts:
  "cv_imread studio [''output'', ''b1'', ''c_1_2_3_1900.png''] = None \<and>
   cv_imread studio [''output'', ''b1'', ''b_1_2_3_1950.png''] = Some [[(100, 100, 100)]] \<and>
   create_mp4_timelapse studio
      [[''output'', ''b1'', ''c_1_2_3_1900.png''], [''output'', ''b1'', ''b_1_2_3_1950.png'']]
      [1900, 1950] [''output'', ''b1'', ''timelapse_b1.mp4''] 1
     = \<lparr>out_result = Inl (ValueError ''Could not read image''), out_writer = None,
        out_warnings = []\<rparr>"
  by (simp add: studio_def path_name_def create_mp4_timelapse_def raise_def)

text \<open>
  C3. In a call that returns with an open container, the container holds, for each
  decoded image in order, its composited frame 2 times when the frame rate is 1 and
  \<open>max 1 (fps div 2)\<close> times at any other rate, and nothing else.
\<close>

theorem frame_written_frame_duration_times:
  assumes "out_result (create_mp4_timelapse env image_files years output_path fps) = Inr p"
    and "out_writer (create_mp4_timelapse env image_files years output_path fps) = Some w"
    and "vw_opened w"
  shows "vw_frames w =
           concat (map (\<lambda>z. case composited env (reference_dims env image_files) z of
                               None \<Rightarrow> []
                             | Some frame \<Rightarrow>
                                 replicate (nat (if fps = 1 then 2 else max 1 (fps div 2))) frame)
                       (decoded_subset env image_files years)) \<and>
         (\<forall>z. z \<in> set (decoded_subset env image_files years) \<longrightarrow>
              composited env (reference_dims env image_files) z \<noteq> None)"
  using run_frames(1,2) [OF assms] unfolding frame_duration_def by simp

theorem frame_written_frame_duration_times_witness:
  "(\<exists>w. create_mp4_timelapse studio [[''output'', ''b1'', ''a_1_2_3_1850.png'']] [1850]
            [''output'', ''b1'', ''timelapse_b1.mp4''] 4
          = \<lparr>out_result = Inr [''output'', ''b1'', ''timelapse_b1.mp4''], out_writer = Some w,
             out_warnings = []\<rparr> \<and>
          vw_opened w \<and>
          vw_frames w =
            concat (map (\<lambda>z. case composited studio
                                     (reference_dims studio [[''output'', ''b1'', ''a_1_2_3_1850.png'']]) z of
                                None \<Rightarrow> []
                              | Some frame \<Rightarrow>
                                  replicate (nat (if (4::int) = 1 then 2 else max 1 (4 div 2))) frame)
                        (decoded_subset studio [[''output'', ''b1'', ''a_1_2_3_1850.png'']] [1850])) \<and>
          nat (if (4::int) = 1 then 2 else max 1 (4 div 2)) = 2 \<and>
          vw_frames w = [[[(100, 100, 100)]], [[(100, 100, 100)]]])"
proof -
  let ?a = "[''output'', ''b1'', ''a_1_2_3_1850.png'']"
  let ?out = "[''output'', ''b1'', ''timelapse_b1.mp4'']"
  let ?w = "\<lparr>vw_path = ?out, vw_fps = 4, vw_size = (1, 1), vw_opened = True,
             vw_frames = [[[(100, 100, 100)]], [[(100, 100, 100)]]], vw_releases = 1\<rparr>"
  have ev: "create_mp4_timelapse studio [?a] [1850] ?out 4
              = \<lparr>out_result = Inr ?out, out_writer = Some ?w, out_warnings = []\<rparr>"
    by code_simp
  have r: "out_result (create_mp4_timelapse studio [?a] [1850] ?out 4) = Inr ?out"
   and w: "out_writer (create_mp4_timelapse studio [?a] [1850] ?out 4) = Some ?w"
    by (simp_all add: ev)
  have o: "vw_opened ?w" by simp
  from frame_written_frame_duration_times [OF r w o] ev show ?thesis
    by simp
qed

theorem two_fps_writes_each_frame_once:
  "map_option (\<lambda>w. int (length (vw_frames w)))
     (out_writer (create_mp4_timelapse studio [[''output'', ''b1'', ''a_1_2_3_1850.png'']] [1850]
                    [''output'', ''b1'', ''timelapse_b1.mp4''] 2)) = Some 1 \<and>
   length (decoded_subset studio [[''output'', ''b1'', ''a_1_2_3_1850.png'']] [1850]) = 1 \<and>
   spec_frame_duration 2 = 4"
proof -
  have "create_mp4_timelapse studio [[''output'', ''b1'', ''a_1_2_3_1850.png'']] [1850]
                    [''output'', ''b1'', ''timelapse_b1.mp4''] 2
          = \<lparr>out_result = Inr [''output'', ''b1'', ''timelapse_b1.mp4''],
             out_writer = Some \<lparr>vw_path = [''output'', ''b1'', ''timelapse_b1.mp4''], vw_fps = 2,
                                 vw_size = (1, 1), vw_opened = True,
                                 vw_frames = [[[(100, 100, 100)]]], vw_releases = 1\<rparr>,
             out_warnings = []\<rparr>"
    by code_simp
  moreover have "length (decoded_subset studio [[''output'', ''b1'', ''a_1_2_3_1850.png'']] [1850]) = 1"
    by (simp add: decoded_subset_def decodes_def studio_def path_name_def)
  ultimately show ?thesis
    by (simp add: spec_frame_duration_def display_seconds_def)
qed

text \<open>
  C7. At one frame per second, a call that returns with an open container has stored
  exactly two frames for each image that decodes.
\<close>

theorem two_frames_per_decoded_image:
  assumes "out_result (create_mp4_timelapse env image_files years output_path 1) = Inr p"
    and "out_writer (create_mp4_timelapse env image_files years output_path 1) = Some w"
    and "vw_opened w"
  shows "length (vw_frames w) = 2 * length (decoded_subset env image_files years)"
proof -
  have n2: "nat (frame_duration 1) = 2" by (simp add: frame_duration_def)
  from run_frames(1) [OF assms] length_concat_replicate [OF run_frames(2) [OF assms], of 2]
  show ?thesis unfolding n2 by simp
qed

theorem two_frames_per_decoded_image_witness:
  "(\<exists>w. create_mp4_timelapse studio
           [[''output'', ''b1'', ''a_1_2_3_1850.png''], [''output'', ''b1'', ''c_1_2_3_1900.png''],
            [''output'', ''b1'', ''b_1_2_3_1950.png'']]
           [1850, 1900, 1950] [''output'', ''b1'', ''timelapse_b1.mp4''] 1
         = \<lparr>out_result = Inr [''output'', ''b1'', ''timelapse_b1.mp4''], out_writer = Some w,
            out_warnings = [[''output'', ''b1'', ''c_1_2_3_1900.png'']]\<rparr> \<and>
         vw_opened w \<and> length (vw_frames w) = 4) \<and>
   length (decoded_subset studio
           [[''output'', ''b1'', ''a_1_2_3_1850.png''], [''output'', ''b1'', ''c_1_2_3_1900.png''],
            [''output'', ''b1'', ''b_1_2_3_1950.png'']] [1850, 1900, 1950]) = 2"
proof -
  let ?files = "[[''output'', ''b1'', ''a_1_2_3_1850.png''], [''output'', ''b1'', ''c_1_2_3_1900.png''],
            [''output'', ''b1'', ''b_1_2_3_1950.png'']]"
  let ?out = "[''output'', ''b1'', ''timelapse_b1.mp4'']"
  let ?w = "\<lparr>vw_path = ?out, vw_fps = 1, vw_size = (1, 1), vw_opened = True,
             vw_frames = [[[(100, 100, 100)]], [[(100, 100, 100)]], [[(100, 100, 100)]],
                          [[(100, 100, 100)]]], vw_releases = 1\<rparr>"
  have ev: "create_mp4_timelapse studio ?files [1850, 1900, 1950] ?out 1
              = \<lparr>out_result = Inr ?out, out_writer = Some ?w,
                 out_warnings = [[''output'', ''b1'', ''c_1_2_3_1900.png'']]\<rparr>"
    by code_simp
  have r: "out_result (create_mp4_timelapse studio ?files [1850, 1900, 1950] ?out 1) = Inr ?out"
   and w: "out_writer (create_mp4_timelapse studio ?files [1850, 1900, 1950] ?out 1) = Some ?w"
    by (simp_all add: ev)
  have o: "vw_opened ?w" by simp
  from two_frames_per_decoded_image [OF r w o] ev show ?thesis
    by simp
qed

text \<open>
  C6. When the batch directory does not exist, or holds no entry whose name ends in
  \<open>.png\<close>, \<open>create_timelapse_video\<close> raises FileNotFoundError, no writer is constructed
  and so no file appears at \<open>output/<batch_id>/timelapse_<batch_id>.mp4\<close>.
\<close>

theorem missing_or_empty_batch_not_found:
  assumes "\<not> fs_exists env [''output'', batch_id] \<or>
           filter (ends_with ''.png'') (fs_listdir env [''output'', batch_id]) = []"
  shows "(\<exists>msg. out_result (create_timelapse_video env batch_id ''mp4'') = Inl (FileNotFoundError msg)) \<and>
         out_writer (create_timelapse_video env batch_id ''mp4'') = None \<and>
         \<not> artifact_created (create_timelapse_video env batch_id ''mp4'')
              [''output'', batch_id, ''timelapse_'' @ batch_id @ ''.mp4'']"
proof -
  from assms have
    "create_timelapse_video env batch_id ''mp4'' = raise (FileNotFoundError ''Batch directory not found'') \<or>
     create_timelapse_video env batch_id ''mp4'' = raise (FileNotFoundError ''No images found in batch directory'')"
    by (auto simp: create_timelapse_video_def path_join_def glob_png_def Let_def)
  then show ?thesis
    by (auto simp: raise_def artifact_created_def)
qed

theorem missing_or_empty_batch_not_found_witness:
  "\<not> fs_exists studio [''output'', ''b2''] \<and>
   create_timelapse_video studio ''b2'' ''mp4''
     = \<lparr>out_result = Inl (FileNotFoundError ''Batch directory not found''), out_writer = None,
        out_warnings = []\<rparr> \<and>
   fs_exists (studio\<lparr>fs_listdir := (\<lambda>p. [''notes.txt'', ''timelapse_b1.mp4''])\<rparr>) [''output'', ''b1''] \<and>
   filter (ends_with ''.png'') [''notes.txt'', ''timelapse_b1.mp4''] = [] \<and>
   create_timelapse_video (studio\<lparr>fs_listdir := (\<lambda>p. [''notes.txt'', ''timelapse_b1.mp4''])\<rparr>) ''b1'' ''mp4''
     = \<lparr>out_result = Inl (FileNotFoundError ''No images found in batch directory''), out_writer = None,
        out_warnings = []\<rparr> \<and>
   \<not> artifact_created
        (create_timelapse_video (studio\<lparr>fs_listdir := (\<lambda>p. [''notes.txt'', ''timelapse_b1.mp4''])\<rparr>) ''b1'' ''mp4'')
        [''output'', ''b1'', ''timelapse_b1.mp4''] \<and>
   \<not> artifact_created (create_timelapse_video studio ''b2'' ''mp4'')
        [''output'', ''b2'', ''timelapse_b2.mp4'']"
proof -
  let ?env = "studio\<lparr>fs_listdir := (\<lambda>p. [''notes.txt'', ''timelapse_b1.mp4''])\<rparr>"
  have h1: "\<not> fs_exists studio [''output'', ''b2''] \<or>
            filter (ends_with ''.png'') (fs_listdir studio [''output'', ''b2'']) = []"
    by (simp add: studio_def)
  have e: "filter (ends_with ''.png'') [''notes.txt'', ''timelapse_b1.mp4''] = []"
    by (simp add: ends_with_def)
  have h2: "\<not> fs_exists ?env [''output'', ''b1''] \<or>
            filter (ends_with ''.png'') (fs_listdir ?env [''output'', ''b1'']) = []"
    using e by simp
  have x1: "\<not> fs_exists studio [''output'', ''b2'']" and x2: "fs_exists ?env [''output'', ''b1'']"
    by (simp_all add: studio_def)
  have r1: "create_timelapse_video studio ''b2'' ''mp4''
     = \<lparr>out_result = Inl (FileNotFoundError ''Batch directory not found''), out_writer = None,
        out_warnings = []\<rparr>"
    using x1 by (simp add: create_timelapse_video_def path_join_def raise_def)
  have r2: "create_timelapse_video ?env ''b1'' ''mp4''
     = \<lparr>out_result = Inl (FileNotFoundError ''No images found in batch directory''), out_writer = None,
        out_warnings = []\<rparr>"
    using x2 e by (simp add: create_timelapse_video_def path_join_def raise_def glob_png_def)
  from missing_or_empty_batch_not_found [OF h1] missing_or_empty_batch_not_found [OF h2]
  show ?thesis using x1 x2 e r1 r2 by simp
qed

text \<open>
  A batch directory whose only \<open>.png\<close> entry carries the prefix \<open>timelapse_\<close> holds no
  eligible image in the specification's sense, yet \<open>create_timelapse_video\<close> globs it like
  any other image and encodes it: the prefix is looked at only in
  \<open>get_batch_media_info\<close>.
\<close>

theorem timelapse_png_only_batch_is_encoded:
  "fs_exists (studio\<lparr>fs_listdir := (\<lambda>p. [''timelapse_b1.png''])\<rparr>) [''output'', ''b1''] \<and>
   filter spec_eligible
     (fs_listdir (studio\<lparr>fs_listdir := (\<lambda>p. [''timelapse_b1.png''])\<rparr>) [''output'', ''b1'']) = [] \<and>
   out_result (create_timelapse_video (studio\<lparr>fs_listdir := (\<lambda>p. [''timelapse_b1.png''])\<rparr>)
                 ''b1'' ''mp4'')
     = Inr [''output'', ''b1'', ''timelapse_b1.mp4''] \<and>
   artifact_created (create_timelapse_video (studio\<lparr>fs_listdir := (\<lambda>p. [''timelapse_b1.png''])\<rparr>)
                       ''b1'' ''mp4'')
     [''output'', ''b1'', ''timelapse_b1.mp4'']"
proof -
  let ?env = "studio\<lparr>fs_listdir := (\<lambda>p. [''timelapse_b1.png''])\<rparr>"
  have x: "fs_exists ?env [''output'', ''b1'']" by (simp add: studio_def)
  have e: "filter spec_eligible (fs_listdir ?env [''output'', ''b1'']) = []"
    by (simp add: spec_eligible_def starts_with_def ends_with_def)
  have ev: "create_timelapse_video ?env ''b1'' ''mp4''
      = \<lparr>out_result = Inr [''output'', ''b1'', ''timelapse_b1.mp4''],
         out_writer = Some \<lparr>vw_path = [''output'', ''b1'', ''timelapse_b1.mp4''], vw_fps = 1,
                             vw_size = (1, 1), vw_opened = True,
                             vw_frames = [[[(100, 100, 100)]], [[(100, 100, 100)]]],
                             vw_releases = 1\<rparr>,
         out_warnings = []\<rparr>"
    by code_simp
  from x e ev show ?thesis by (simp add: artifact_created_def)
qed

lemma write_repeat_closed:
  "write_repeat env frame n w = (r, w') \<Longrightarrow> \<not> (vw_opened w \<and> vw_releases w = 0) \<Longrightarrow>
     vw_frames w' = vw_frames w"
proof (induction n arbitrary: w)
  case 0
  then show ?case by simp
next
  case (Suc n)
  obtain r1 w1 where w1: "vw_write env w frame = (r1, w1)" by (cases "vw_write env w frame")
  have same: "w1 = w"
    using w1 Suc.prems(2) by (auto simp: vw_write_def split: option.splits if_splits)
  show ?case
  proof (cases r1)
    case None
    with Suc.prems(1) w1 same have "write_repeat env frame n w = (r, w')" by simp
    from Suc.IH [OF this Suc.prems(2)] show ?thesis .
  next
    case (Some e)
    with Suc.prems(1) w1 same show ?thesis by simp
  qed
qed

lemma encode_loop_closed:
  "encode_loop env dims fps zs s = (r, s') \<Longrightarrow>
   \<not> (vw_opened (writer s) \<and> vw_releases (writer s) = 0) \<Longrightarrow>
     vw_frames (writer s') = vw_frames (writer s)"
proof (induction env dims fps zs s rule: encode_loop.induct)
  case (1 env dims fps s)
  then show ?case by simp
next
  case (2 env dims fps image_file year rest s)
  show ?case
  proof (cases "cv_imread env image_file")
    case None
    with "2.prems" "2.IH"(1) show ?thesis by simp
  next
    case (Some img)
    show ?thesis
    proof (cases "composite env dims img year")
      case (Inl e)
      with Some "2.prems" show ?thesis by simp
    next
      case (Inr frame)
      obtain r1 w1 where wr: "write_repeat env frame (nat (frame_duration fps)) (writer s) = (r1, w1)"
        by (cases "write_repeat env frame (nat (frame_duration fps)) (writer s)")
      note f = write_repeat_fields [OF wr] write_repeat_closed [OF wr "2.prems"(2)]
      show ?thesis
      proof (cases r1)
        case None
        with Some Inr wr "2.prems" have run: "encode_loop env dims fps rest (s\<lparr>writer := w1\<rparr>) = (r, s')"
          by simp
        have "\<not> (vw_opened (writer (s\<lparr>writer := w1\<rparr>)) \<and> vw_releases (writer (s\<lparr>writer := w1\<rparr>)) = 0)"
          using f "2.prems"(2) by simp
        from "2.IH"(2) [OF Some Inr wr [symmetric, unfolded None] refl run this] f
        show ?thesis by simp
      next
        case (Some e)
        with \<open>cv_imread env image_file = Some img\<close> Inr wr "2.prems" have "s' = s\<lparr>writer := w1\<rparr>" by simp
        with f show ?thesis by simp
      qed
    qed
  qed
qed

text \<open>
  C9. A constructor that raises ends the call with that exception, before any frame is
  handled. A constructor that returns a writer whose container did not open raises
  nothing: the loop runs against it, no frame is stored, the writer is released once,
  and where no library call raises the output path is returned.
\<close>

theorem container_not_opened:
  assumes "image_files = first_file # others"
    and "cv_imread env first_file = Some first_image"
  shows "(\<forall>e. cv_VideoWriter env output_path fps
                 (snd (shape2 first_image), fst (shape2 first_image)) = Inl e
              \<longrightarrow> create_mp4_timelapse env image_files years output_path fps = raise e) \<and>
         (cv_VideoWriter env output_path fps
            (snd (shape2 first_image), fst (shape2 first_image)) = Inr False
              \<longrightarrow> (\<exists>w. out_writer (create_mp4_timelapse env image_files years output_path fps) = Some w \<and>
                       \<not> vw_opened w \<and> vw_frames w = [] \<and> vw_releases w = 1) \<and>
                  (never_raises env \<longrightarrow>
                     out_result (create_mp4_timelapse env image_files years output_path fps)
                       = Inr output_path))"
proof (intro conjI allI impI)
  fix e
  assume "cv_VideoWriter env output_path fps
            (snd (shape2 first_image), fst (shape2 first_image)) = Inl e"
  from create_mp4_timelapse_open_raises [OF assms this]
  show "create_mp4_timelapse env image_files years output_path fps = raise e" .
next
  let ?size = "(snd (shape2 first_image), fst (shape2 first_image))"
  let ?s0 = "\<lparr>writer = new_writer output_path fps ?size False, warnings = []\<rparr>"
  assume c: "cv_VideoWriter env output_path fps ?size = Inr False"
  note unf = create_mp4_timelapse_constructed [OF assms c, of years]
  obtain r s where run: "encode_loop env (shape2 first_image) fps (zip image_files years) ?s0 = (r, s)"
    by (cases "encode_loop env (shape2 first_image) fps (zip image_files years) ?s0")
  note fl = encode_loop_fields [OF run]
  have fr: "vw_frames (writer s) = []"
  proof -
    have "\<not> (vw_opened (writer ?s0) \<and> vw_releases (writer ?s0) = 0)"
      by (simp add: new_writer_def)
    with encode_loop_closed [OF run] show ?thesis by (simp add: new_writer_def)
  qed
  from unf run fl fr
  show "\<exists>w. out_writer (create_mp4_timelapse env image_files years output_path fps) = Some w \<and>
            \<not> vw_opened w \<and> vw_frames w = [] \<and> vw_releases w = 1"
    by (simp add: Let_def vw_release_def new_writer_def)
  assume n: "never_raises env"
  from unf encode_loop_never_raises [OF n, of "shape2 first_image" fps "zip image_files years" ?s0]
  show "out_result (create_mp4_timelapse env image_files years output_path fps) = Inr output_path"
    by (simp add: Let_def)
qed

theorem container_not_opened_witness:
  "cv_imread studio [''output'', ''b1'', ''a_1_2_3_1850.png''] = Some [[(100, 100, 100)]] \<and>
   never_raises (studio\<lparr>cv_VideoWriter := (\<lambda>p fps frame_size. Inr False)\<rparr>) \<and>
   create_mp4_timelapse (studio\<lparr>cv_VideoWriter := (\<lambda>p fps frame_size. Inl (CvError ''bad arguments''))\<rparr>)
       [[''output'', ''b1'', ''a_1_2_3_1850.png'']] [1850] [''output'', ''b1'', ''timelapse_b1.mp4''] 1
     = \<lparr>out_result = Inl (CvError ''bad arguments''), out_writer = None, out_warnings = []\<rparr> \<and>
   (\<exists>w. out_writer (create_mp4_timelapse (studio\<lparr>cv_VideoWriter := (\<lambda>p fps frame_size. Inr False)\<rparr>)
                      [[''output'', ''b1'', ''a_1_2_3_1850.png'']] [1850]
                      [''output'', ''b1'', ''timelapse_b1.mp4''] 1) = Some w \<and>
        \<not> vw_opened w \<and> vw_frames w = [] \<and> vw_releases w = 1) \<and>
   out_result (create_mp4_timelapse (studio\<lparr>cv_VideoWriter := (\<lambda>p fps frame_size. Inr False)\<rparr>)
                 [[''output'', ''b1'', ''a_1_2_3_1850.png'']] [1850]
                 [''output'', ''b1'', ''timelapse_b1.mp4''] 1)
     = Inr [''output'', ''b1'', ''timelapse_b1.mp4'']"
proof -
  let ?a = "[''output'', ''b1'', ''a_1_2_3_1850.png'']"
  let ?out = "[''output'', ''b1'', ''timelapse_b1.mp4'']"
  let ?closed = "studio\<lparr>cv_VideoWriter := (\<lambda>p fps frame_size. Inr False)\<rparr>"
  let ?raising = "studio\<lparr>cv_VideoWriter := (\<lambda>p fps frame_size. Inl (CvError ''bad arguments''))\<rparr>"
  have a0: "cv_imread studio ?a = Some [[(100, 100, 100)]]"
   and a1: "cv_imread ?closed ?a = Some [[(100, 100, 100)]]"
   and a2: "cv_imread ?raising ?a = Some [[(100, 100, 100)]]"
    by (simp_all add: studio_def path_name_def)
  have n: "never_raises ?closed"
    by (simp add: never_raises_def studio_def)
  have c1: "cv_VideoWriter ?closed ?out 1
              (snd (shape2 [[(100, 100, 100)]]), fst (shape2 [[(100, 100, 100)]])) = Inr False"
   and c2: "cv_VideoWriter ?raising ?out 1
              (snd (shape2 [[(100, 100, 100)]]), fst (shape2 [[(100, 100, 100)]])) = Inl (CvError ''bad arguments'')"
    by simp_all
  from container_not_opened [OF refl a1, where others = "[]" and output_path = ?out and fps = 1
                                          and years = "[1850]"]
       container_not_opened [OF refl a2, where others = "[]" and output_path = ?out and fps = 1
                                          and years = "[1850]"] a0 n c1 c2
  show ?thesis by (simp add: raise_def)
qed

theorem unopened_container_returns_path:
  "cv_VideoWriter (studio\<lparr>cv_VideoWriter := (\<lambda>p fps frame_size. Inr False)\<rparr>)
       [''output'', ''b1'', ''timelapse_b1.mp4''] 1 (1, 1) = Inr False \<and>
   create_mp4_timelapse (studio\<lparr>cv_VideoWriter := (\<lambda>p fps frame_size. Inr False)\<rparr>)
       [[''output'', ''b1'', ''a_1_2_3_1850.png'']] [1850] [''output'', ''b1'', ''timelapse_b1.mp4''] 1
     = \<lparr>out_result = Inr [''output'', ''b1'', ''timelapse_b1.mp4''],
        out_writer = Some \<lparr>vw_path = [''output'', ''b1'', ''timelapse_b1.mp4''], vw_fps = 1,
                            vw_size = (1, 1), vw_opened = False, vw_frames = [], vw_releases = 1\<rparr>,
        out_warnings = []\<rparr>"
proof -
  have "create_mp4_timelapse (studio\<lparr>cv_VideoWriter := (\<lambda>p fps frame_size. Inr False)\<rparr>)
       [[''output'', ''b1'', ''a_1_2_3_1850.png'']] [1850] [''output'', ''b1'', ''timelapse_b1.mp4''] 1
     = \<lparr>out_result = Inr [''output'', ''b1'', ''timelapse_b1.mp4''],
        out_writer = Some \<lparr>vw_path = [''output'', ''b1'', ''timelapse_b1.mp4''], vw_fps = 1,
                            vw_size = (1, 1), vw_opened = False, vw_frames = [], vw_releases = 1\<rparr>,
        out_warnings = []\<rparr>"
    by code_simp
  then show ?thesis by simp
qed

section \<open>The overlay on the store\<close>

lemma rectangle_filled_length: "length (rectangle_filled img pt1 pt2 color) = length img"
  by (simp add: rectangle_filled_def)

lemma rectangle_filled_row:
  "y < length img \<Longrightarrow> length (rectangle_filled img pt1 pt2 color ! y) = length (img ! y)"
  by (simp add: rectangle_filled_def)

lemma rectangle_filled_nth:
  "y < length img \<Longrightarrow> x < length (img ! y) \<Longrightarrow>
     rectangle_filled img pt1 pt2 color ! y ! x
       = (if in_rect pt1 pt2 x y then color else img ! y ! x)"
  by (simp add: rectangle_filled_def)

lemma addWeighted_nth:
  "y < length a \<Longrightarrow> y < length b \<Longrightarrow> x < length (a ! y) \<Longrightarrow> x < length (b ! y) \<Longrightarrow>
     addWeighted env a alpha b beta gamma ! y ! x
       = blend_pixel env alpha beta gamma (a ! y ! x) (b ! y ! x)"
  by (simp add: addWeighted_def)

lemma text_background_store:
  assumes "text_background env h img = (h', c)"
  shows "c = length h" and "length h' = length h + 2" and "\<forall>a. a < length h \<longrightarrow> h' ! a = h ! a"
  using assms
  by (auto simp: text_background_def np_copy_def cv_rectangle_def cv_addWeighted_def Let_def nth_append)

lemma text_background_image:
  assumes "text_background env h img = (h', c)" and "img < length h"
  shows "h' ! c = addWeighted env (rectangle_filled (h ! img) (10, 10) (200, 80) (0, 0, 0)) (7 / 10)
                    (h ! img) (3 / 10) 0"
  using assms
  by (auto simp: text_background_def np_copy_def cv_rectangle_def cv_addWeighted_def Let_def nth_append)

lemma round_half_even_near: "\<bar>of_int (round_half_even x) - x\<bar> \<le> 1 / 2"
proof -
  define f where "f = \<lfloor>x\<rfloor>"
  have lo: "of_int f \<le> x" and hi: "x < of_int f + 1"
    unfolding f_def by linarith+
  consider "x - of_int f < 1 / 2" | "1 / 2 < x - of_int f" | "x - of_int f = 1 / 2" by linarith
  then show ?thesis
  proof cases
    case 1
    then have "round_half_even x = f" by (simp add: round_half_even_def f_def Let_def)
    with 1 lo show ?thesis by simp
  next
    case 2
    then have "round_half_even x = f + 1" by (simp add: round_half_even_def f_def Let_def)
    with 2 hi show ?thesis by simp
  next
    case 3
    then have "round_half_even x = f \<or> round_half_even x = f + 1"
      by (simp add: round_half_even_def f_def Let_def)
    with 3 show ?thesis by auto
  qed
qed

lemma nearest_blend_near:
  assumes "0 \<le> of_nat c1 * alpha + of_nat c2 * beta + gamma"
    and "of_nat c1 * alpha + of_nat c2 * beta + gamma \<le> 255"
  shows "\<bar>of_nat (nearest_blend alpha beta gamma c1 c2)
           - (of_nat c1 * alpha + of_nat c2 * beta + gamma)\<bar> < 1"
proof -
  let ?e = "of_nat c1 * alpha + of_nat c2 * beta + gamma"
  let ?r = "round_half_even ?e"
  note n = round_half_even_near [of ?e]
  from n assms have "(of_int (- 1) :: rat) < of_int ?r" and "of_int ?r < (of_int 256 :: rat)"
    by (simp_all add: abs_if split: if_splits)
  then have "- 1 < ?r" and "?r < 256" by (simp_all only: of_int_less_iff)
  then have "nearest_blend alpha beta gamma c1 c2 = nat ?r" and "0 \<le> ?r"
    by (simp_all add: nearest_blend_def)
  then have "(of_nat (nearest_blend alpha beta gamma c1 c2) :: rat) = of_int ?r"
    by simp
  with n show ?thesis by simp
qed

lemma blend_accurate_studio: "blend_accurate studio"
  unfolding blend_accurate_def using nearest_blend_near by (simp add: studio_def)

lemma accurate_blend_same:
  assumes "blend_accurate env" and "c \<le> 255"
  shows "cv_blend env (7 / 10) (3 / 10) 0 c c = c"
proof -
  have e: "of_nat c * (7 / 10) + of_nat c * (3 / 10) + 0 = (of_nat c :: rat)" by simp
  have "\<bar>of_nat (cv_blend env (7 / 10) (3 / 10) 0 c c)
          - (of_nat c * (7 / 10) + of_nat c * (3 / 10) + 0)\<bar> < (1::rat)"
    using assms unfolding blend_accurate_def e
    by (metis of_nat_0_le_iff of_nat_le_iff of_nat_numeral e)
  then have "\<bar>(of_nat (cv_blend env (7 / 10) (3 / 10) 0 c c) :: rat) - of_nat c\<bar> < 1"
    by (simp only: e)
  then have "\<bar>(of_int (int (cv_blend env (7 / 10) (3 / 10) 0 c c) - int c) :: rat)\<bar> < of_int 1"
    by simp
  then have "\<bar>int (cv_blend env (7 / 10) (3 / 10) 0 c c) - int c\<bar> < 1"
    by (simp only: of_int_abs [symmetric] of_int_less_iff)
  then show ?thesis by simp
qed

lemma accurate_blend_under_black:
  assumes "blend_accurate env" and "c \<le> 255"
  shows "\<bar>of_nat (cv_blend env (7 / 10) (3 / 10) 0 0 c) - 3 / 10 * of_nat c\<bar> < (1::rat)"
proof -
  have e: "of_nat 0 * (7 / 10) + of_nat c * (3 / 10) + 0 = (3 / 10 * of_nat c :: rat)" by simp
  have "(of_nat c :: rat) \<le> 255" using assms(2) by (metis of_nat_le_iff of_nat_numeral)
  then have "0 \<le> (3 / 10 * of_nat c :: rat)" and "(3 / 10 * of_nat c :: rat) \<le> 255" by simp_all
  with assms(1) show ?thesis
    unfolding blend_accurate_def by (metis e)
qed

lemma accurate_pixel_same:
  assumes "blend_accurate env" and "is_u8_pixel p"
  shows "blend_pixel env (7 / 10) (3 / 10) 0 p p = p"
  using assms
  by (cases p) (simp add: blend_pixel_def is_u8_pixel_def accurate_blend_same)

lemma accurate_pixel_under_black:
  assumes "blend_accurate env" and "is_u8_pixel p"
  shows "near_scaled (3 / 10) (blend_pixel env (7 / 10) (3 / 10) 0 (0, 0, 0) p) p"
proof -
  obtain b g r where p: "p = (b, g, r)" by (cases p)
  with assms(2) have "b \<le> 255" and "g \<le> 255" and "r \<le> 255"
    by (simp_all add: is_u8_pixel_def)
  from this [THEN accurate_blend_under_black [OF assms(1)]] show ?thesis
    by (simp add: p blend_pixel_def near_scaled_def)
qed

text \<open>
  C8. Behind the text, every frame gets the same black rectangle with corners (10, 10) and
  (200, 80). Inside it a pixel is the library's blend of black at weight 0.7 with the frame
  at weight 0.3 (70% opacity), outside it the blend of the frame with itself. Whatever
  the library's rounding, as long as it stays within one level of the exact value, an
  8-bit pixel keeps 0.3 of each channel inside the rectangle, within one level, and is
  unchanged outside it.
\<close>

theorem backing_rectangle_blend:
  assumes "img < length h"
    and "text_background env h img = (h', c)"
    and "y < length (h ! img)"
    and "x < length (h ! img ! y)"
  shows "h' ! c ! y ! x =
           (if in_rect (10, 10) (200, 80) x y
            then blend_at_opacity env (7 / 10) (0, 0, 0) (h ! img ! y ! x)
            else blend_at_opacity env (7 / 10) (h ! img ! y ! x) (h ! img ! y ! x)) \<and>
         (blend_accurate env \<and> is_u8_pixel (h ! img ! y ! x)
            \<longrightarrow> (if in_rect (10, 10) (200, 80) x y
                 then near_scaled (3 / 10) (h' ! c ! y ! x) (h ! img ! y ! x)
                 else h' ! c ! y ! x = h ! img ! y ! x))"
proof -
  let ?src = "h ! img"
  let ?ov = "rectangle_filled ?src (10, 10) (200, 80) (0, 0, 0)"
  have w: "(1::rat) - 7 / 10 = 3 / 10" by simp
  have px: "h' ! c ! y ! x = blend_pixel env (7 / 10) (3 / 10) 0 (?ov ! y ! x) (?src ! y ! x)"
    unfolding text_background_image [OF assms(2,1)]
    using assms(3,4)
    by (simp add: addWeighted_nth rectangle_filled_length rectangle_filled_row)
  have ov: "?ov ! y ! x = (if in_rect (10, 10) (200, 80) x y then (0, 0, 0) else ?src ! y ! x)"
    using assms(3,4) by (simp add: rectangle_filled_nth)
  have first: "h' ! c ! y ! x =
           (if in_rect (10, 10) (200, 80) x y
            then blend_at_opacity env (7 / 10) (0, 0, 0) (h ! img ! y ! x)
            else blend_at_opacity env (7 / 10) (h ! img ! y ! x) (h ! img ! y ! x))"
    unfolding px ov by (simp add: blend_at_opacity_def w)
  have second: "if in_rect (10, 10) (200, 80) x y
                 then near_scaled (3 / 10) (h' ! c ! y ! x) (h ! img ! y ! x)
                 else h' ! c ! y ! x = h ! img ! y ! x"
    if "blend_accurate env" and "is_u8_pixel (h ! img ! y ! x)"
    unfolding px ov
    using accurate_pixel_same [OF that] accurate_pixel_under_black [OF that] by simp
  from first second show ?thesis by blast
qed

theorem backing_rectangle_blend_witness:
  "(0::nat) < length ([replicate 12 (replicate 12 (100, 100, 100))] :: store) \<and>
   text_background studio [replicate 12 (replicate 12 (100, 100, 100))] 0
     = (fst (text_background studio [replicate 12 (replicate 12 (100, 100, 100))] 0), 1) \<and>
   blend_accurate studio \<and>
   is_u8_pixel (100, 100, 100) \<and>
   in_rect (10, 10) (200, 80) 11 10 \<and>
   \<not> in_rect (10, 10) (200, 80) 9 10 \<and>
   fst (text_background studio [replicate 12 (replicate 12 (100, 100, 100))] 0) ! 1 ! 10 ! 11
     = blend_at_opacity studio (7 / 10) (0, 0, 0) (100, 100, 100) \<and>
   near_scaled (3 / 10)
     (fst (text_background studio [replicate 12 (replicate 12 (100, 100, 100))] 0) ! 1 ! 10 ! 11)
     (100, 100, 100) \<and>
   fst (text_background studio [replicate 12 (replicate 12 (100, 100, 100))] 0) ! 1 ! 10 ! 9
     = (100, 100, 100)"
proof -
  let ?h = "[replicate 12 (replicate 12 (100, 100, 100))] :: store"
  have l: "(0::nat) < length ?h" by simp
  have tb: "text_background studio ?h 0 = (fst (text_background studio ?h 0), 1)"
    using text_background_store(1) [of studio ?h 0] by (cases "text_background studio ?h 0") simp
  have y: "10 < length (?h ! 0)" by simp
  have x1: "11 < length (?h ! 0 ! 10)" and x2: "9 < length (?h ! 0 ! 10)" by simp_all
  have i1: "in_rect (10, 10) (200, 80) 11 10" and i2: "\<not> in_rect (10, 10) (200, 80) 9 10"
    by (simp_all add: in_rect_def)
  have u: "is_u8_pixel (100, 100, 100)" by (simp add: is_u8_pixel_def)
  have p1: "?h ! 0 ! 10 ! 11 = (100, 100, 100)" and p2: "?h ! 0 ! 10 ! 9 = (100, 100, 100)"
    by simp_all
  have t: "(if True then P else Q) = P" and f: "(if False then P else Q) = Q" for P Q :: bool
    by simp_all
  have t': "(if True then v else w) = v" and f': "(if False then v else w) = w" for v w :: pixel
    by simp_all
  from i1 have i1': "in_rect (10, 10) (200, 80) 11 10 = True" by simp
  from i2 have i2': "in_rect (10, 10) (200, 80) 9 10 = False" by simp
  note inside = backing_rectangle_blend [OF l tb y x1, unfolded p1 i1' t t']
  note outside = backing_rectangle_blend [OF l tb y x2, unfolded p2 i2' f f']
  from inside have a: "fst (text_background studio ?h 0) ! 1 ! 10 ! 11
     = blend_at_opacity studio (7 / 10) (0, 0, 0) (100, 100, 100)"
    by blast
  from inside u blend_accurate_studio
  have b: "near_scaled (3 / 10) (fst (text_background studio ?h 0) ! 1 ! 10 ! 11) (100, 100, 100)"
    by blast
  from outside u blend_accurate_studio
  have c: "fst (text_background studio ?h 0) ! 1 ! 10 ! 9 = (100, 100, 100)"
    by blast
  from l tb blend_accurate_studio u i1 i2 a b c show ?thesis
    by (intro conjI)
qed

theorem backing_rectangle_not_at_twenty_percent:
  "in_rect (10, 10) (200, 80) 10 10 \<and>
   (case text_background studio [replicate 11 (replicate 11 (100, 100, 100))] 0 of
      (h', c) \<Rightarrow> h' ! c ! 10 ! 10) = (30, 30, 30) \<and>
   blend_at_opacity studio (2 / 10) (0, 0, 0) (100, 100, 100) = (80, 80, 80) \<and>
   \<not> near_scaled (8 / 10) (30, 30, 30) (100, 100, 100)"
proof -
  let ?img = "replicate 11 (replicate 11 (100, 100, 100)) :: image"
  have i: "in_rect (10, 10) (200, 80) 10 10" by (simp add: in_rect_def)
  obtain h' c where tb: "text_background studio [?img] 0 = (h', c)"
    by (cases "text_background studio [?img] 0")
  have "h' ! c ! 10 ! 10
          = blend_pixel studio (7 / 10) (3 / 10) 0
              (rectangle_filled ?img (10, 10) (200, 80) (0, 0, 0) ! 10 ! 10) (?img ! 10 ! 10)"
    using text_background_image [OF tb]
    by (simp add: addWeighted_nth rectangle_filled_length rectangle_filled_row)
  also have "\<dots> = blend_pixel studio (7 / 10) (3 / 10) 0 (0, 0, 0) (100, 100, 100)"
    using i by (simp add: rectangle_filled_nth)
  also have "\<dots> = (30, 30, 30)"
    by (simp add: blend_pixel_def studio_def nearest_blend_def round_half_even_def)
  finally have px: "h' ! c ! 10 ! 10 = (30, 30, 30)" .
  have sp: "blend_at_opacity studio (2 / 10) (0, 0, 0) (100, 100, 100) = (80, 80, 80)"
    by (simp add: blend_at_opacity_def blend_pixel_def studio_def nearest_blend_def
          round_half_even_def)
  have far: "\<not> near_scaled (8 / 10) (30, 30, 30) (100, 100, 100)"
    by (simp add: near_scaled_def)
  from i px tb sp far show ?thesis by simp
qed

text \<open>
  C10. With the overlay on, \<open>add_year_overlay\<close> leaves every array that existed before the
  call as it was, the argument among them, and the array it returns is a new one: its
  address was not allocated before the call. This also holds when the text drawing raises.
\<close>

theorem overlay_returns_new_array:
  assumes "img < length h"
    and "add_year_overlay env h img year True = (r, h')"
  shows "h' ! img = h ! img \<and>
         (\<forall>a. a < length h \<longrightarrow> h' ! a = h ! a) \<and>
         length h < length h' \<and>
         (\<forall>res. r = Inr res \<longrightarrow> length h \<le> res \<and> res < length h' \<and> res \<noteq> img)"
proof -
  obtain h4 c where tb: "text_background env h img = (h4, c)"
    by (cases "text_background env h img")
  note st = text_background_store [OF tb]
  show ?thesis
  proof (cases "cv_putText env (h4 ! c) (str_int year) (20, 50)")
    case (Inl e)
    with assms(2) tb have "h' = h4" and "r = Inl e"
      by (simp_all add: add_year_overlay_def)
    with st assms(1) show ?thesis by simp
  next
    case (Inr drawn)
    with assms(2) tb have h': "h' = h4[c := drawn]" and r: "r = Inr c"
      by (simp_all add: add_year_overlay_def)
    from st assms(1) show ?thesis
      unfolding h' r by (simp add: nth_list_update)
  qed
qed

theorem overlay_returns_new_array_witness:
  "(0::nat) < length [[[(100, 100, 100)]]] \<and>
   add_year_overlay (studio\<lparr>cv_putText := (\<lambda>img txt org. Inr [[(255, 255, 255)]])\<rparr>)
       [[[(100, 100, 100)]]] 0 1850 True
     = (Inr 1, [[[(100, 100, 100)]], [[(255, 255, 255)]], [[(100, 100, 100)]]]) \<and>
   [[[(100, 100, 100)]], [[(255, 255, 255)]], [[(100, 100, 100)]]] ! 0 = [[(100, 100, 100)]] \<and>
   length [[[(100, 100, 100)]]] \<le> (1::nat)"
proof -
  let ?env = "studio\<lparr>cv_putText := (\<lambda>img txt org. Inr [[(255, 255, 255)]])\<rparr>"
  let ?h = "[[[(100, 100, 100)]]] :: store"
  have l: "(0::nat) < length ?h" by simp
  have ev: "add_year_overlay ?env ?h 0 1850 True
     = (Inr 1, [[[(100, 100, 100)]], [[(255, 255, 255)]], [[(100, 100, 100)]]])"
    by code_simp
  from overlay_returns_new_array [OF l ev] ev show ?thesis by simp
qed

end
